theory Spec2Isabelle
  imports Main "HOL-Library.Word"
begin

section \<open>Strings and paths\<close>

text \<open>
  A Go string is a sequence of bytes, and so is an Isabelle \<open>string\<close>. The program runs its
  names through three functions of Go's standard library: \<open>strings.Contains\<close>,
  \<open>filepath.Ext\<close> and \<open>filepath.Base\<close>. They are embedded here the way the library
  writes them for a Unix host (the only path separator is the slash, there is no volume
  name), loops as recursion over the index.
\<close>

definition IsPathSeparator :: "char \<Rightarrow> bool" where
  "IsPathSeparator c = (c = CHR ''/'')"

text \<open>\<open>strings.HasPrefix\<close> and \<open>strings.Contains\<close> (a naive search, position by position).\<close>

fun HasPrefix :: "string \<Rightarrow> string \<Rightarrow> bool" where
  "HasPrefix s [] = True"
| "HasPrefix [] (p # ps) = False"
| "HasPrefix (c # cs) (p # ps) = (c = p \<and> HasPrefix cs ps)"

text \<open>\<open>strings.HasSuffix\<close>: \<open>len(s) >= len(suffix) && s[len(s)-len(suffix):] == suffix\<close>.\<close>

definition HasSuffix :: "string \<Rightarrow> string \<Rightarrow> bool" where
  "HasSuffix s suffix =
     (length s \<ge> length suffix \<and> drop (length s - length suffix) s = suffix)"

fun Contains :: "string \<Rightarrow> string \<Rightarrow> bool" where
  "Contains [] substr = HasPrefix [] substr"
| "Contains (c # cs) substr = (HasPrefix (c # cs) substr \<or> Contains cs substr)"

text \<open>
  \<open>filepath.Ext\<close>:
  \<^verbatim>\<open>for i := len(path) - 1; i >= 0 && !os.IsPathSeparator(path[i]); i-- {
        if path[i] == '.' { return path[i:] } }
     return ""\<close>
  The argument \<open>Suc i\<close> of the loop stands for the index \<open>i\<close>, so that \<open>0\<close> is \<open>i = -1\<close>.
\<close>

fun ExtLoop :: "string \<Rightarrow> nat \<Rightarrow> string" where
  "ExtLoop path 0 = []"
| "ExtLoop path (Suc i) =
     (if IsPathSeparator (path ! i) then []
      else if path ! i = CHR ''.'' then drop i path
      else ExtLoop path i)"

definition Ext :: "string \<Rightarrow> string" where
  "Ext path = ExtLoop path (length path)"

text \<open>
  \<open>filepath.Base\<close>: the empty path gives \<open>"."\<close>; trailing separators are stripped; what
  follows the last separator is kept; a path of separators only gives \<open>"/"\<close>.
\<close>

function StripTrailing :: "string \<Rightarrow> string" where
  "StripTrailing path =
     (if length path > 0 \<and> IsPathSeparator (path ! (length path - 1))
      then StripTrailing (take (length path - 1) path)
      else path)"
  by pat_completeness auto
termination
  by (relation "measure length") auto

declare StripTrailing.simps [simp del]

text \<open>The second loop of \<open>Base\<close>; the result is \<open>i + 1\<close> for the final \<open>i\<close> of the loop.\<close>

fun LastSep :: "string \<Rightarrow> nat \<Rightarrow> nat" where
  "LastSep path 0 = 0"
| "LastSep path (Suc i) = (if IsPathSeparator (path ! i) then Suc i else LastSep path i)"

definition Base :: "string \<Rightarrow> string" where
  "Base path =
     (if path = [] then ''.''
      else let p = StripTrailing path;
               q = drop (LastSep p (length p)) p
           in if q = [] then ''/'' else q)"

section \<open>The name filter\<close>

definition shouldSkipFile :: "string \<Rightarrow> bool" where
  "shouldSkipFile fileName =
     (let ext = Ext fileName; base = Base fileName in
      if Contains fileName ''img-source'' then True
      else ext = ''.lua'' \<or> ext = ''.psd'' \<or> ext = ''.xcf'' \<or> ext = ''.blend'' \<or>
           ext = ''.jpg'' \<or>
           base = ''LICENSE'' \<or> base = ''README.md'' \<or> base = ''script.dat'' \<or>
           base = ''banner.png'' \<or> base = ''preview.png'' \<or> base = ''preview.jpg'')"

text \<open>
  The filter as the specification words it. A name contains a substring when it can be cut
  into a part before, the substring and a part after. The last path segment of a name is
  what follows its last slash, trailing slashes aside (the base name of \<open>a/b/\<close> is
  \<open>b\<close>); the extension is the suffix of the text after the last slash that starts at its
  last dot, and is empty when there is no dot.
\<close>

definition contains_substring :: "string \<Rightarrow> string \<Rightarrow> bool" where
  "contains_substring name sub = (\<exists>pre post. name = pre @ sub @ post)"

definition after_last_slash :: "string \<Rightarrow> string" where
  "after_last_slash name = rev (takeWhile (\<lambda>c. c \<noteq> CHR ''/'') (rev name))"

definition without_trailing_slashes :: "string \<Rightarrow> string" where
  "without_trailing_slashes name = rev (dropWhile (\<lambda>c. c = CHR ''/'') (rev name))"

definition last_path_segment :: "string \<Rightarrow> string" where
  "last_path_segment name = after_last_slash (without_trailing_slashes name)"

definition extension :: "string \<Rightarrow> string" where
  "extension name =
     (let seg = after_last_slash name in
      if CHR ''.'' \<in> set seg
      then CHR ''.'' # rev (takeWhile (\<lambda>c. c \<noteq> CHR ''.'') (rev seg))
      else [])"

definition shouldExclude_spec :: "string \<Rightarrow> bool" where
  "shouldExclude_spec name =
     (contains_substring name ''img-source'' \<or>
      extension name \<in> {''.lua'', ''.psd'', ''.xcf'', ''.blend'', ''.jpg''} \<or>
      last_path_segment name \<in>
        {''LICENSE'', ''README.md'', ''script.dat'', ''banner.png'', ''preview.png'',
         ''preview.jpg''})"

section \<open>Errors, the file store and the trace of a run\<close>

text \<open>
  A Go \<open>error\<close> is a value. \<open>Errno s\<close> is an error of the operating system or of a library,
  with the text \<open>s\<close>; \<open>Errorf msg err\<close> is \<open>fmt.Errorf("msg: %w", err)\<close>, the way every
  error return of the program wraps its cause. \<open>Error\<close> is the method \<open>err.Error()\<close>, which
  \<open>%v\<close> prints.
\<close>

datatype error = Errno string | Errorf string error

fun Error :: "error \<Rightarrow> string" where
  "Error (Errno s) = s"
| "Error (Errorf msg err) = msg @ '': '' @ Error err"

definition ENOENT :: error where
  "ENOENT = Errno ''no such file or directory''"

definition IsNotExist :: "error option \<Rightarrow> bool" where
  "IsNotExist err = (err = Some ENOENT)"

definition newline :: string where
  "newline = [CHR 0x0A]"

type_synonym bytes = "8 word list"

text \<open>
  What a run does to the outside is kept in a trace, in the order of the calls: the lines
  printed and the calls of the \<open>os\<close> package, each with its path.
\<close>

datatype event =
    EvPrint string
  | EvStat string
  | EvOpen string
  | EvReadFile string
  | EvWriteFile string
  | EvRemove string

text \<open>
  The world of a run. The disk holds files, each with a number (its inode) and its bytes;
  \<open>inode\<close> gives the file that a path leads to, symbolic links followed, when it leads
  to one that is not a directory. Two paths can lead to the same file: a symbolic link
  and its target, or two hard links. \<open>next_inode\<close> is the number that the next new file
  gets. Then come the outcomes the environment has in store for the coming fallible calls
  (\<open>None\<close>: the call succeeds, \<open>Some e\<close>: it fails with \<open>e\<close>; when the list is used up
  every call succeeds), and the trace. The disk has no permissions: a failure that does
  not come from a missing file comes from the list of faults, so that every error branch
  of the program can be reached.
\<close>

record world =
  inode :: "string \<Rightarrow> nat option"
  disk :: "nat \<Rightarrow> bytes"
  next_inode :: nat
  faults :: "error option list"
  trace :: "event list"

text \<open>The disk as a whole, and what reading through a path gives.\<close>

definition store :: "world \<Rightarrow> (string \<Rightarrow> nat option) \<times> (nat \<Rightarrow> bytes) \<times> nat" where
  "store w = (inode w, disk w, next_inode w)"

definition files :: "world \<Rightarrow> string \<Rightarrow> bytes option" where
  "files w name = map_option (disk w) (inode w name)"

type_synonym 'a io = "world \<Rightarrow> (error + 'a) \<times> world"

definition ret :: "'a \<Rightarrow> 'a io" where
  "ret x w = (Inr x, w)"

definition io_bind :: "'a io \<Rightarrow> ('a \<Rightarrow> 'b io) \<Rightarrow> 'b io" where
  "io_bind m f w = (case m w of (Inl err, w1) \<Rightarrow> (Inl err, w1) | (Inr x, w1) \<Rightarrow> f x w1)"

text \<open>\<open>wrapf msg m\<close> is the idiom \<open>x, err := m; if err != nil { return fmt.Errorf("msg: %w", err) }\<close>.\<close>

definition wrapf :: "string \<Rightarrow> 'a io \<Rightarrow> 'a io" where
  "wrapf msg m w = (case m w of (Inl err, w1) \<Rightarrow> (Inl (Errorf msg err), w1) | (Inr x, w1) \<Rightarrow> (Inr x, w1))"

definition emit :: "event \<Rightarrow> world \<Rightarrow> world" where
  "emit e w = w\<lparr>trace := trace w @ [e]\<rparr>"

definition next_fault :: "world \<Rightarrow> error option \<times> world" where
  "next_fault w = (case faults w of [] \<Rightarrow> (None, w) | f # fs \<Rightarrow> (f, w\<lparr>faults := fs\<rparr>))"

text \<open>A call that the environment may fail, and that gives \<open>x\<close> when it does not.\<close>

definition fallible :: "'a \<Rightarrow> 'a io" where
  "fallible x w = (case next_fault w of (Some err, w1) \<Rightarrow> (Inl err, w1) | (None, w1) \<Rightarrow> (Inr x, w1))"

subsection \<open>The calls of the \<open>os\<close> and \<open>fmt\<close> packages\<close>

definition Printf :: "string \<Rightarrow> world \<Rightarrow> world" where
  "Printf s w = emit (EvPrint s) w"

text \<open>\<open>os.Stat\<close>, for its error only: a missing file is reported as such.\<close>

definition os_Stat :: "string \<Rightarrow> world \<Rightarrow> error option \<times> world" where
  "os_Stat name w =
     (let w1 = emit (EvStat name) w in
      case files w1 name of
        None \<Rightarrow> (Some ENOENT, w1)
      | Some b \<Rightarrow> next_fault w1)"

text \<open>\<open>os.Open\<close>: the handle is modelled by the bytes it reads.\<close>

definition os_Open :: "string \<Rightarrow> bytes io" where
  "os_Open name w =
     (let w1 = emit (EvOpen name) w in
      case files w1 name of
        None \<Rightarrow> (Inl ENOENT, w1)
      | Some b \<Rightarrow> fallible b w1)"

text \<open>\<open>(*os.File).Stat\<close>, for the size only.\<close>

definition file_Stat :: "bytes \<Rightarrow> nat io" where
  "file_Stat f = fallible (length f)"

definition os_ReadFile :: "string \<Rightarrow> bytes io" where
  "os_ReadFile name w =
     (let w1 = emit (EvReadFile name) w in
      case files w1 name of
        None \<Rightarrow> (Inl ENOENT, w1)
      | Some b \<Rightarrow> fallible b w1)"

text \<open>
  \<open>os.OpenFile(name, O_WRONLY|O_CREATE|O_TRUNC, perm)\<close>: the file that the path leads to
  is emptied, and a new, empty file is made when the path leads to none. The handle is
  modelled by the inode.
\<close>

definition os_OpenFile_trunc :: "string \<Rightarrow> nat io" where
  "os_OpenFile_trunc name w =
     (case fallible () w of
        (Inl err, w1) \<Rightarrow> (Inl err, w1)
      | (Inr u, w1) \<Rightarrow>
          (case inode w1 name of
             Some i \<Rightarrow> (Inr i, w1\<lparr>disk := (disk w1)(i := [])\<rparr>)
           | None \<Rightarrow>
               (Inr (next_inode w1),
                w1\<lparr>inode := (inode w1)(name \<mapsto> next_inode w1),
                   disk := (disk w1)(next_inode w1 := []),
                   next_inode := Suc (next_inode w1)\<rparr>)))"

text \<open>
  \<open>os.WriteFile\<close> opens the file in this way, writes and closes; each of the three can
  fail. After the open the file is empty, after the write it holds the data. The file
  written is the one the path leads to: every path that leads to it reads the new bytes.
\<close>

definition os_WriteFile :: "string \<Rightarrow> bytes \<Rightarrow> unit io" where
  "os_WriteFile name b w =
     io_bind (os_OpenFile_trunc name) (\<lambda>i.
     io_bind (fallible ()) (\<lambda>_ w2.
     fallible () (w2\<lparr>disk := (disk w2)(i := b)\<rparr>)))
       (emit (EvWriteFile name) w)"

text \<open>
  \<open>os.Remove\<close> takes the name away (of a symbolic link, the link itself); the file stays
  for the other paths that lead to it. It can fail like every other call, and then
  nothing is removed.
\<close>

definition os_Remove :: "string \<Rightarrow> world \<Rightarrow> error option \<times> world" where
  "os_Remove name w =
     (case next_fault (emit (EvRemove name) w) of
        (Some err, w1) \<Rightarrow> (Some err, w1)
      | (None, w1) \<Rightarrow> (None, w1\<lparr>inode := (inode w1)(name := None)\<rparr>))"

section \<open>The archive library\<close>

text \<open>
  \<open>zip.FileHeader\<close> with the three fields the program sets, and \<open>zip.File\<close>, which embeds
  the header; \<open>data\<close> is the decoded content of the entry, what reading the entry to its
  end gives. The same record stands for an entry of the writer: the header it was created
  with and the bytes written to it. Every other field of the header (comment, extra
  field, external attributes) is left at its zero value by the program and is not
  modelled.
\<close>

type_synonym Time = int

record FileHeader =
  Name :: string
  Method :: "16 word"
  Modified :: Time

record zip_File = FileHeader +
  data :: bytes

definition Store :: "16 word" where
  "Store = 0"

definition Deflate :: "16 word" where
  "Deflate = 8"

text \<open>
  The container format itself is a capability of the library and a parameter here: how
  the bytes of an archive of a given size are parsed into entries (\<open>zip.NewReader\<close>), and
  which bytes the buffer holds once the writer has been closed on the entries written.
\<close>

record zip_lib =
  lib_NewReader :: "bytes \<Rightarrow> nat \<Rightarrow> error + zip_File list"
  lib_Bytes :: "zip_File list \<Rightarrow> bytes"

type_synonym zip_Writer = "zip_File list"

definition zip_NewReader :: "zip_lib \<Rightarrow> bytes \<Rightarrow> nat \<Rightarrow> zip_File list io" where
  "zip_NewReader lib r n =
     io_bind (fallible ()) (\<lambda>_ w.
       case lib_NewReader lib r n of Inl err \<Rightarrow> (Inl err, w) | Inr fs \<Rightarrow> (Inr fs, w))"

definition zip_NewWriter :: zip_Writer where
  "zip_NewWriter = []"

text \<open>\<open>(*zip.File).Open\<close>: the reader is modelled by the bytes it will give.\<close>

definition zip_File_Open :: "zip_File \<Rightarrow> bytes io" where
  "zip_File_Open file = fallible (data file)"

text \<open>
  \<open>(*zip.Writer).CreateHeader\<close> starts a new, empty entry after those written. A name
  that ends in a slash is a directory: the library sets its method to \<open>Store\<close>, whatever
  the header asks for.
\<close>

definition zip_CreateHeader :: "zip_Writer \<Rightarrow> FileHeader \<Rightarrow> zip_Writer io" where
  "zip_CreateHeader zw fh =
     fallible (zw @ [\<lparr>Name = Name fh,
                       Method = (if HasSuffix (Name fh) ''/'' then Store else Method fh),
                       Modified = Modified fh, data = []\<rparr>])"

text \<open>
  \<open>Write\<close> on the \<open>io.Writer\<close> that \<open>CreateHeader\<close> gave: the bytes go to the entry created
  last. For a directory the writer takes no bytes: it accepts an empty write and refuses
  any other.
\<close>

definition dst_Write :: "zip_Writer \<Rightarrow> bytes \<Rightarrow> zip_Writer io" where
  "dst_Write zw p =
     (case rev zw of
        [] \<Rightarrow> (\<lambda>w. (Inl (Errno ''zip: no entry to write to''), w))
      | e # es \<Rightarrow>
          if HasSuffix (Name e) ''/'' then
            (\<lambda>w. if p = [] then (Inr zw, w) else (Inl (Errno ''zip: write to directory''), w))
          else fallible (rev es @ [e\<lparr>data := data e @ p\<rparr>]))"

text \<open>
  \<open>io.Copy(dst, src)\<close>: reading the source can fail, and so can writing; nothing is
  written when nothing was read.
\<close>

definition io_Copy :: "zip_Writer \<Rightarrow> bytes \<Rightarrow> zip_Writer io" where
  "io_Copy zw src =
     io_bind (fallible src) (\<lambda>p. if p = [] then ret zw else dst_Write zw p)"

definition zip_Close :: "zip_Writer \<Rightarrow> zip_Writer io" where
  "zip_Close zw = fallible zw"

section \<open>The archive rewriter\<close>

definition addPlaceholderPNGToZip :: "zip_File \<Rightarrow> zip_Writer \<Rightarrow> bytes \<Rightarrow> zip_Writer io" where
  "addPlaceholderPNGToZip file zipWriter placeholderPNG =
     (let header = \<lparr>Name = Name file, Method = Deflate, Modified = Modified file\<rparr> in
      io_bind (wrapf ''could not create file in new zip'' (zip_CreateHeader zipWriter header))
        (\<lambda>dstFile.
      wrapf ''could not write placeholder PNG'' (dst_Write dstFile placeholderPNG)))"

definition copyFileToZip :: "zip_File \<Rightarrow> zip_Writer \<Rightarrow> zip_Writer io" where
  "copyFileToZip file zipWriter =
     io_bind (wrapf ''could not open file inside zip'' (zip_File_Open file)) (\<lambda>srcFile.
     (let header = \<lparr>Name = Name file, Method = Deflate, Modified = Modified file\<rparr> in
      io_bind (wrapf ''could not create file in new zip'' (zip_CreateHeader zipWriter header))
        (\<lambda>dstFile.
      wrapf ''could not copy file content'' (io_Copy dstFile srcFile))))"

text \<open>The loop of \<open>processZipFile\<close> over \<open>zipReader.File\<close>.\<close>

fun processEntries :: "zip_File list \<Rightarrow> bytes \<Rightarrow> zip_Writer \<Rightarrow> zip_Writer io" where
  "processEntries [] placeholderPNG zipWriter = ret zipWriter"
| "processEntries (file # rest) placeholderPNG zipWriter =
     (if shouldSkipFile (Name file) then
        (\<lambda>w. processEntries rest placeholderPNG zipWriter
               (Printf (''Excluding file '' @ Name file @ newline) w))
      else if Ext (Name file) = ''.png'' then
        io_bind (wrapf ''could not replace PNG file''
                   (addPlaceholderPNGToZip file zipWriter placeholderPNG))
          (\<lambda>zipWriter'. processEntries rest placeholderPNG zipWriter')
      else
        io_bind (wrapf ''could not copy file to new zip'' (copyFileToZip file zipWriter))
          (\<lambda>zipWriter'. processEntries rest placeholderPNG zipWriter'))"

definition processZipFile :: "zip_lib \<Rightarrow> string \<Rightarrow> string \<Rightarrow> unit io" where
  "processZipFile lib zipPath placeholderPNGPath =
     io_bind (wrapf ''could not open zip file'' (os_Open zipPath)) (\<lambda>zipFile.
     io_bind (wrapf ''could not get zip file info'' (file_Stat zipFile)) (\<lambda>zipStat.
     io_bind (wrapf ''could not read zip file'' (zip_NewReader lib zipFile zipStat))
       (\<lambda>zipReader.
     io_bind (wrapf ''could not read placeholder PNG'' (os_ReadFile placeholderPNGPath))
       (\<lambda>placeholderPNG.
     io_bind (processEntries zipReader placeholderPNG zip_NewWriter) (\<lambda>zipWriter.
     io_bind (wrapf ''could not close new zip writer'' (zip_Close zipWriter)) (\<lambda>buf.
     wrapf ''could not overwrite zip file'' (os_WriteFile zipPath (lib_Bytes lib buf))))))))"

section \<open>The traversal\<close>

text \<open>
  \<open>os.FileInfo\<close>, with the name and the kind of the object. \<open>filepath.Walk\<close> uses
  \<open>os.Lstat\<close>, so a symbolic link is reported as a link and not followed.
\<close>

datatype file_mode = ModeRegular | ModeDir | ModeSymlink | ModeNamedPipe | ModeSocket | ModeDevice

record FileInfo =
  info_Name :: string
  info_Mode :: file_mode

definition IsDir :: "FileInfo \<Rightarrow> bool" where
  "IsDir info = (info_Mode info = ModeDir)"

definition IsRegular :: "FileInfo \<Rightarrow> bool" where
  "IsRegular info = (info_Mode info = ModeRegular)"

text \<open>The kinds of object that are not directories.\<close>

datatype leaf_kind = Regular | Symlink | NamedPipe | Socket | Device

fun leaf_mode :: "leaf_kind \<Rightarrow> file_mode" where
  "leaf_mode Regular = ModeRegular"
| "leaf_mode Symlink = ModeSymlink"
| "leaf_mode NamedPipe = ModeNamedPipe"
| "leaf_mode Socket = ModeSocket"
| "leaf_mode Device = ModeDevice"

text \<open>
  What \<open>filepath.Walk\<close> finds under the root, each object with the path \<open>Walk\<close> hands to
  the callback and with its name: an object whose \<open>Lstat\<close> fails, an object that is not a
  directory, a directory whose names cannot be read, a directory with its entries in the
  order of their names.
\<close>

datatype tree =
    LstatFails string error
  | Leaf string string leaf_kind
  | DirUnreadable string string error
  | Dir string string "tree list"

text \<open>
  The goroutine that the callback starts for an archive. The model runs it to its end at
  the point where it is started: one of the schedules of the program. The error that
  \<open>os.Remove\<close> may return is dropped, as the program drops it.
\<close>

definition job :: "zip_lib \<Rightarrow> string \<Rightarrow> string \<Rightarrow> world \<Rightarrow> world" where
  "job lib zipPath placeholderPNGPath w =
     (case processZipFile lib zipPath placeholderPNGPath w of
        (Inl err, w1) \<Rightarrow>
          snd (os_Remove zipPath
            (Printf (''Error processing zip file '' @ zipPath @ '': '' @ Error err @ newline) w1))
      | (Inr u, w1) \<Rightarrow> w1)"

text \<open>
  The callback of \<open>main\<close>. \<open>Walk\<close> calls it with a path and either an error (\<open>Inl\<close>) or
  the \<open>FileInfo\<close> of the object (\<open>Inr\<close>); the callback looks at the \<open>FileInfo\<close> only
  when the error is \<open>nil\<close>.
\<close>

fun walkFn :: "zip_lib \<Rightarrow> string \<Rightarrow> string \<Rightarrow> error + FileInfo \<Rightarrow> world \<Rightarrow> error option \<times> world"
  where
  "walkFn lib placeholderPNGPath path (Inl err) w = (Some err, w)"
| "walkFn lib placeholderPNGPath path (Inr info) w =
     (if \<not> IsDir info \<and> Ext (info_Name info) = ''.zip''
      then (None, job lib path placeholderPNGPath w)
      else (None, w))"

text \<open>
  \<open>filepath.Walk\<close> and its recursion \<open>walk\<close>, as Go's library has them: the callback is
  called for every object, a directory before its entries; a directory whose names cannot
  be read is reported to the callback with the error and not entered; as soon as the
  callback returns an error, the walk stops and returns it. (The values \<open>SkipDir\<close> and
  \<open>SkipAll\<close>, by which a callback can ask to go on, are not errors of the operating
  system; the callback of \<open>main\<close> returns only what \<open>Walk\<close> gave it, so it never
  returns them.)
\<close>

fun walk :: "(string \<Rightarrow> error + FileInfo \<Rightarrow> world \<Rightarrow> error option \<times> world) \<Rightarrow> tree \<Rightarrow> world
               \<Rightarrow> error option \<times> world"
  and walk_names :: "(string \<Rightarrow> error + FileInfo \<Rightarrow> world \<Rightarrow> error option \<times> world) \<Rightarrow> tree list
               \<Rightarrow> world \<Rightarrow> error option \<times> world"
  where
  "walk fn (LstatFails path err) w = fn path (Inl err) w"
| "walk fn (Leaf path name k) w = fn path (Inr \<lparr>info_Name = name, info_Mode = leaf_mode k\<rparr>) w"
| "walk fn (DirUnreadable path name err) w = fn path (Inl err) w"
| "walk fn (Dir path name ts) w =
     (case fn path (Inr \<lparr>info_Name = name, info_Mode = ModeDir\<rparr>) w of
        (Some err1, w1) \<Rightarrow> (Some err1, w1)
      | (None, w1) \<Rightarrow> walk_names fn ts w1)"
| "walk_names fn [] w = (None, w)"
| "walk_names fn (t # ts) w =
     (case walk fn t w of
        (Some err, w1) \<Rightarrow> (Some err, w1)
      | (None, w1) \<Rightarrow> walk_names fn ts w1)"

definition Walk :: "tree \<Rightarrow> (string \<Rightarrow> error + FileInfo \<Rightarrow> world \<Rightarrow> error option \<times> world) \<Rightarrow> world
               \<Rightarrow> error option \<times> world" where
  "Walk root fn w = walk fn root w"

text \<open>
  \<open>main\<close>, on what \<open>Walk\<close> finds under the directory of the flag \<open>-path\<close>. The wait group
  and its bound on the number of jobs in flight have no part in this sequential model.
  \<open>main\<close> has no call of \<open>os.Exit\<close>: it returns, from the early \<open>return\<close> or at its end,
  and the process ends with status 0.
\<close>

definition placeholderPNGPath :: string where
  "placeholderPNGPath = ''./placeholder.png''"

definition main :: "zip_lib \<Rightarrow> tree \<Rightarrow> world \<Rightarrow> int \<times> world" where
  "main lib rootDir w =
     (case os_Stat placeholderPNGPath w of (err0, w1) \<Rightarrow>
      if IsNotExist err0 then
        (0, Printf (''Placeholder PNG file not found at '' @ placeholderPNGPath @ newline) w1)
      else
        (case Walk rootDir (walkFn lib placeholderPNGPath) w1 of (err, w2) \<Rightarrow>
         let w3 = (case err of
                     Some e \<Rightarrow> Printf (''Error walking the directory: '' @ Error e @ newline) w2
                   | None \<Rightarrow> w2)
         in (0, Printf (''Processing complete.'' @ newline) w3)))"

section \<open>Reading a run\<close>

text \<open>The paths of the archives that the jobs of a run opened, in order.\<close>

fun opened :: "event list \<Rightarrow> string list" where
  "opened [] = []"
| "opened (EvOpen p # evs) = p # opened evs"
| "opened (e # evs) = opened evs"

definition prints_only :: "event list \<Rightarrow> bool" where
  "prints_only evs = (\<forall>e \<in> set evs. \<exists>s. e = EvPrint s)"

text \<open>
  The results of \<open>processZipFile\<close> that come from its first three steps (opening the
  archive, asking its size, parsing it), and those of its last step, the overwrite.
\<close>

definition early_failure :: "error + unit \<Rightarrow> bool" where
  "early_failure r =
     (\<exists>e. r = Inl (Errorf ''could not open zip file'' e) \<or>
          r = Inl (Errorf ''could not get zip file info'' e) \<or>
          r = Inl (Errorf ''could not read zip file'' e))"

definition overwrite_failure :: "error + unit \<Rightarrow> bool" where
  "overwrite_failure r = (\<exists>e. r = Inl (Errorf ''could not overwrite zip file'' e))"

text \<open>
  Every object under the root in the order in which \<open>Walk\<close> comes to it, with what the
  callback is given for it, when nothing stops the walk.
\<close>

fun preorder :: "tree \<Rightarrow> (string \<times> (error + FileInfo)) list"
  and preorder_names :: "tree list \<Rightarrow> (string \<times> (error + FileInfo)) list" where
  "preorder (LstatFails path err) = [(path, Inl err)]"
| "preorder (Leaf path name k) = [(path, Inr \<lparr>info_Name = name, info_Mode = leaf_mode k\<rparr>)]"
| "preorder (DirUnreadable path name err) = [(path, Inl err)]"
| "preorder (Dir path name ts) =
     (path, Inr \<lparr>info_Name = name, info_Mode = ModeDir\<rparr>) # preorder_names ts"
| "preorder_names [] = []"
| "preorder_names (t # ts) = preorder t @ preorder_names ts"

text \<open>A callback called on a list of objects in turn, until it returns an error.\<close>

fun run_visits :: "(string \<Rightarrow> error + FileInfo \<Rightarrow> world \<Rightarrow> error option \<times> world) \<Rightarrow>
    (string \<times> (error + FileInfo)) list \<Rightarrow> world \<Rightarrow> error option \<times> world" where
  "run_visits fn [] w = (None, w)"
| "run_visits fn (v # vs) w =
     (case fn (fst v) (snd v) w of
        (Some err, w1) \<Rightarrow> (Some err, w1)
      | (None, w1) \<Rightarrow> run_visits fn vs w1)"

text \<open>The objects before the first one that comes with an error, and that error.\<close>

definition before_error :: "(string \<times> (error + FileInfo)) list \<Rightarrow> (string \<times> (error + FileInfo)) list"
  where
  "before_error vs = takeWhile (\<lambda>v. \<not> isl (snd v)) vs"

definition first_error :: "(string \<times> (error + FileInfo)) list \<Rightarrow> error option" where
  "first_error vs =
     (case dropWhile (\<lambda>v. \<not> isl (snd v)) vs of
        [] \<Rightarrow> None
      | v # _ \<Rightarrow> (case snd v of Inl err \<Rightarrow> Some err | Inr info \<Rightarrow> None))"

text \<open>An object that is not a directory and whose name has the extension \<open>.zip\<close>.\<close>

fun zip_object :: "string \<times> (error + FileInfo) \<Rightarrow> bool" where
  "zip_object (path, Inl err) = False"
| "zip_object (path, Inr info) = (\<not> IsDir info \<and> Ext (info_Name info) = ''.zip'')"

fun regular_zip_object :: "string \<times> (error + FileInfo) \<Rightarrow> bool" where
  "regular_zip_object (path, Inl err) = False"
| "regular_zip_object (path, Inr info) = (IsRegular info \<and> Ext (info_Name info) = ''.zip'')"

section \<open>A small run\<close>

text \<open>
  A placeholder, three archives and a library that knows them, for the examples that
  follow the theorems.
\<close>

definition demo_blob :: bytes where
  "demo_blob = [0x89, 0x50, 0x4E, 0x47]"

definition demo_mod :: "zip_File list" where
  "demo_mod =
     [\<lparr>Name = ''control.lua'', Method = Deflate, Modified = 1700000000, data = [0x2D, 0x2D]\<rparr>,
      \<lparr>Name = ''graphics/icon.png'', Method = Deflate, Modified = 1700000001,
        data = [0x01, 0x02, 0x03]\<rparr>,
      \<lparr>Name = ''info.json'', Method = Store, Modified = 1700000002, data = [0x7B, 0x7D]\<rparr>]"

definition demo_plain :: "zip_File list" where
  "demo_plain =
     [\<lparr>Name = ''info.json'', Method = Store, Modified = 1700000002, data = [0x7B, 0x7D]\<rparr>,
      \<lparr>Name = ''locale/en/base.cfg'', Method = Deflate, Modified = 1700000003,
        data = [0x61, 0x3D, 0x62]\<rparr>]"

definition demo_plain_out :: "zip_File list" where
  "demo_plain_out =
     [\<lparr>Name = ''info.json'', Method = Deflate, Modified = 1700000002, data = [0x7B, 0x7D]\<rparr>,
      \<lparr>Name = ''locale/en/base.cfg'', Method = Deflate, Modified = 1700000003,
        data = [0x61, 0x3D, 0x62]\<rparr>]"

definition demo_lib :: zip_lib where
  "demo_lib =
     \<lparr>lib_NewReader = (\<lambda>r n.
        if take n r = [0x50, 0x4B, 0x01] then Inr demo_mod
        else if take n r = [0x50, 0x4B, 0x02] then Inr demo_plain
        else if take n r = [0x50, 0x4B, 0x03] then Inr demo_plain_out
        else Inl (Errno ''zip: not a valid zip file'')),
      lib_Bytes = (\<lambda>es. if es = demo_plain_out then [0x50, 0x4B, 0x03] else [0x50, 0x4B, 0x04])\<rparr>"

definition demo_world :: world where
  "demo_world =
     \<lparr>inode = [''./placeholder.png'' \<mapsto> 1, ''maps/a.zip'' \<mapsto> 2, ''maps/b.zip'' \<mapsto> 3,
               ''maps/broken.zip'' \<mapsto> 4],
      disk = (\<lambda>i. [])
               (1 := demo_blob, 2 := [0x50, 0x4B, 0x01], 3 := [0x50, 0x4B, 0x02], 4 := [0x00]),
      next_inode = 5,
      faults = [],
      trace = []\<rparr>"

definition demo_tree :: tree where
  "demo_tree =
     Dir ''maps'' ''maps''
       [Leaf ''maps/a.zip'' ''a.zip'' Regular,
        Leaf ''maps/b.zip'' ''b.zip'' Regular,
        Leaf ''maps/notes.txt'' ''notes.txt'' Regular]"

text \<open>The same disk without the placeholder.\<close>

definition bare_world :: world where
  "bare_world = demo_world\<lparr>inode := (inode demo_world)(''./placeholder.png'' := None)\<rparr>"

text \<open>
  A directory with a symbolic link named like an archive, and the file the link leads to,
  an archive under another name.
\<close>

definition link_tree :: tree where
  "link_tree =
     Dir ''maps'' ''maps''
       [Leaf ''maps/link.zip'' ''link.zip'' Symlink,
        Leaf ''maps/target.dat'' ''target.dat'' Regular]"

definition link_world :: world where
  "link_world =
     demo_world\<lparr>inode := (inode demo_world)(''maps/link.zip'' \<mapsto> 5, ''maps/target.dat'' \<mapsto> 5),
                disk := (disk demo_world)(5 := [0x50, 0x4B, 0x02]),
                next_inode := 6\<rparr>"

text \<open>A disk on which nothing can be removed: the fourth call of the run fails.\<close>

definition stuck_world :: world where
  "stuck_world =
     demo_world\<lparr>faults :=
       [None, None, None, Some (Errno ''remove maps/broken.zip: read-only file system'')]\<rparr>"

text \<open>
  A disk that fails while \<open>maps/b.zip\<close> is written, after the file has been emptied, and
  on which the file cannot be removed either: the fifteenth and sixteenth call fail.
\<close>

definition failing_world :: world where
  "failing_world =
     demo_world\<lparr>faults :=
       [None, None, None, None, None, None, None, None, None, None, None, None, None, None,
        Some (Errno ''write maps/b.zip: input/output error''),
        Some (Errno ''remove maps/b.zip: input/output error'')]\<rparr>"

text \<open>An archive with a directory entry.\<close>

definition demo_dirs :: "zip_File list" where
  "demo_dirs =
     [\<lparr>Name = ''locale/'', Method = Store, Modified = 1700000004, data = []\<rparr>,
      \<lparr>Name = ''locale/en.cfg'', Method = Store, Modified = 1700000005, data = [0x61]\<rparr>]"

text \<open>A directory whose first entry is a directory that cannot be read.\<close>

definition locked_tree :: tree where
  "locked_tree =
     Dir ''maps'' ''maps''
       [DirUnreadable ''maps/a'' ''a'' (Errno ''open maps/a: permission denied''),
        Leaf ''maps/b.zip'' ''b.zip'' Regular]"

section \<open>The name filter meets its specification\<close>

lemma HasPrefix_iff: "HasPrefix s p \<longleftrightarrow> (\<exists>post. s = p @ post)"
  by (induction s p rule: HasPrefix.induct) auto

lemma Contains_iff: "Contains s sub \<longleftrightarrow> contains_substring s sub"
proof (induction s)
  case Nil
  show ?case by (auto simp: contains_substring_def HasPrefix_iff)
next
  case (Cons c cs)
  have "contains_substring (c # cs) sub \<longleftrightarrow>
        (\<exists>post. c # cs = sub @ post) \<or> contains_substring cs sub"
  proof
    assume "contains_substring (c # cs) sub"
    then obtain pre post where eq: "c # cs = pre @ sub @ post"
      unfolding contains_substring_def by blast
    show "(\<exists>post. c # cs = sub @ post) \<or> contains_substring cs sub"
    proof (cases pre)
      case Nil
      with eq show ?thesis by auto
    next
      case (Cons d ds)
      with eq have "cs = ds @ sub @ post" by simp
      then show ?thesis unfolding contains_substring_def by blast
    qed
  next
    assume "(\<exists>post. c # cs = sub @ post) \<or> contains_substring cs sub"
    then show "contains_substring (c # cs) sub"
    proof
      assume "\<exists>post. c # cs = sub @ post"
      then obtain post where "c # cs = [] @ sub @ post" by auto
      then show ?thesis unfolding contains_substring_def by blast
    next
      assume "contains_substring cs sub"
      then obtain pre post where "cs = pre @ sub @ post"
        unfolding contains_substring_def by blast
      then have "c # cs = (c # pre) @ sub @ post" by simp
      then show ?thesis unfolding contains_substring_def by blast
    qed
  qed
  with Cons show ?case by (simp add: HasPrefix_iff)
qed

lemma after_last_slash_snoc:
  "after_last_slash (xs @ [c]) = (if c = CHR ''/'' then [] else after_last_slash xs @ [c])"
  by (simp add: after_last_slash_def)

lemma extension_snoc:
  "extension (xs @ [c]) =
     (if c = CHR ''/'' then []
      else if c = CHR ''.'' then ''.''
      else if extension xs = [] then [] else extension xs @ [c])"
  by (simp add: extension_def after_last_slash_snoc Let_def)

lemma ExtLoop_take:
  "n \<le> length path \<Longrightarrow>
   ExtLoop path n = (if extension (take n path) = [] then [] else extension (take n path) @ drop n path)"
proof (induction n)
  case 0
  show ?case by (simp add: extension_def after_last_slash_def)
next
  case (Suc i)
  then have i: "i < length path" by simp
  have tk: "take (Suc i) path = take i path @ [path ! i]"
    using i by (simp add: take_Suc_conv_app_nth)
  have dr: "drop i path = path ! i # drop (Suc i) path"
    using i by (simp add: Cons_nth_drop_Suc)
  show ?case using Suc.IH i
    by (simp add: tk dr extension_snoc IsPathSeparator_def)
qed

lemma Ext_extension: "Ext path = extension path"
  by (simp add: Ext_def ExtLoop_take)

lemma StripTrailing_eq: "StripTrailing path = without_trailing_slashes path"
proof (induction path rule: StripTrailing.induct)
  case (1 path)
  show ?case
  proof (cases path rule: rev_cases)
    case Nil
    then show ?thesis
      by (subst StripTrailing.simps) (simp add: without_trailing_slashes_def)
  next
    case (snoc xs c)
    show ?thesis
    proof (cases "c = CHR ''/''")
      case True
      with snoc 1 have "StripTrailing xs = without_trailing_slashes xs"
        by (simp add: IsPathSeparator_def)
      moreover have "StripTrailing path = StripTrailing xs"
        using snoc True by (subst StripTrailing.simps) (simp add: IsPathSeparator_def)
      ultimately show ?thesis using snoc True by (simp add: without_trailing_slashes_def)
    next
      case False
      have "StripTrailing path = path"
        using snoc False by (subst StripTrailing.simps) (simp add: IsPathSeparator_def)
      then show ?thesis using snoc False by (simp add: without_trailing_slashes_def)
    qed
  qed
qed

lemma LastSep_le: "LastSep p n \<le> n"
  by (induction n) auto

lemma LastSep_take:
  "n \<le> length p \<Longrightarrow> drop (LastSep p n) (take n p) = after_last_slash (take n p)"
proof (induction n)
  case 0
  show ?case by (simp add: after_last_slash_def)
next
  case (Suc i)
  then have i: "i < length p" by simp
  have tk: "take (Suc i) p = take i p @ [p ! i]"
    using i by (simp add: take_Suc_conv_app_nth)
  show ?case using Suc.IH i LastSep_le [of p i]
    by (simp add: tk after_last_slash_snoc IsPathSeparator_def)
qed

lemma drop_LastSep: "drop (LastSep p (length p)) p = after_last_slash p"
  using LastSep_take [of "length p" p] by simp

lemma Base_eq:
  "Base path =
     (if path = [] then ''.'' else if last_path_segment path = [] then ''/''
      else last_path_segment path)"
  unfolding Base_def Let_def drop_LastSep StripTrailing_eq last_path_segment_def by simp

lemma last_path_segment_Nil: "last_path_segment [] = []"
  by (simp add: last_path_segment_def after_last_slash_def without_trailing_slashes_def)

text \<open>
  Claim C2. For every string, \<open>shouldSkipFile\<close> answers true exactly when the name contains
  \<open>img-source\<close>, or its extension is one of \<open>.lua\<close>, \<open>.psd\<close>, \<open>.xcf\<close>, \<open>.blend\<close>,
  \<open>.jpg\<close>, or its last path segment is one of \<open>LICENSE\<close>, \<open>README.md\<close>, \<open>script.dat\<close>,
  \<open>banner.png\<close>, \<open>preview.png\<close>, \<open>preview.jpg\<close>. The function is a total function of
  the name alone: its loops end on every string, and it reads nothing but its argument.
\<close>

theorem shouldSkipFile_iff_spec: "shouldSkipFile name = shouldExclude_spec name"
  by (auto simp: shouldSkipFile_def shouldExclude_spec_def Let_def Contains_iff Ext_extension
      Base_eq last_path_segment_Nil)

text \<open>Some names: a directory entry, a folder of sources, the case of an extension.\<close>

lemma shouldSkipFile_examples:
  "shouldSkipFile ''LICENSE/''" "shouldSkipFile ''a/img-source/x.txt''"
  "\<not> shouldSkipFile ''a/b.LUA''" "\<not> shouldSkipFile ''a.lua/b''"
  "shouldSkipFile ''x/preview.png''" "\<not> shouldSkipFile ''x/mypreview.png''"
  "shouldSkipFile ''thing.lua''" "\<not> shouldSkipFile ''thing.lua/''"
  by code_simp+

section \<open>Runs that succeed\<close>

lemma io_bind_Inr:
  "io_bind m f w = (Inr y, w') \<longleftrightarrow> (\<exists>x w1. m w = (Inr x, w1) \<and> f x w1 = (Inr y, w'))"
  by (auto simp: io_bind_def split: prod.splits sum.splits)

lemma wrapf_Inr: "wrapf msg m w = (Inr x, w') \<longleftrightarrow> m w = (Inr x, w')"
  by (auto simp: wrapf_def split: prod.splits sum.splits)

lemma files_store: "store w' = store w \<Longrightarrow> files w' = files w"
  by (rule ext) (simp add: store_def files_def)

lemma store_emit: "store (emit e w) = store w"
  by (simp add: store_def emit_def)

lemma files_emit: "files (emit e w) = files w"
  by (rule files_store) (rule store_emit)

lemma next_fault_same:
  "next_fault w = (r, w') \<Longrightarrow> store w' = store w \<and> trace w' = trace w"
  by (auto simp: next_fault_def store_def split: list.splits)

lemma fallible_same:
  "fallible x w = (r, w') \<Longrightarrow> store w' = store w \<and> trace w' = trace w"
  by (auto simp: fallible_def split: prod.splits option.splits dest: next_fault_same)

lemma fallible_Inr: "fallible x w = (Inr y, w') \<Longrightarrow> y = x"
  by (auto simp: fallible_def split: prod.splits option.splits)

lemma os_Open_Inr:
  "os_Open name w = (Inr b, w') \<Longrightarrow> files w name = Some b \<and> store w' = store w"
  by (auto simp: os_Open_def Let_def files_emit store_emit split: option.splits
      dest: fallible_same fallible_Inr)

lemma os_ReadFile_Inr:
  "os_ReadFile name w = (Inr b, w') \<Longrightarrow> files w name = Some b \<and> store w' = store w"
  by (auto simp: os_ReadFile_def Let_def files_emit store_emit split: option.splits
      dest: fallible_same fallible_Inr)

lemma file_Stat_Inr:
  "file_Stat f w = (Inr n, w') \<Longrightarrow> n = length f \<and> store w' = store w"
  by (auto simp: file_Stat_def dest: fallible_same fallible_Inr)

lemma zip_NewReader_Inr:
  "zip_NewReader lib r n w = (Inr fs, w') \<Longrightarrow> lib_NewReader lib r n = Inr fs \<and> store w' = store w"
  by (cases "lib_NewReader lib r n") (auto simp: zip_NewReader_def io_bind_Inr dest: fallible_same)

lemma zip_Close_Inr:
  "zip_Close zw w = (Inr b, w') \<Longrightarrow> b = zw \<and> store w' = store w"
  by (auto simp: zip_Close_def dest: fallible_same fallible_Inr)

text \<open>Writing to a path that leads to a file: the file gets the bytes, nothing else moves.\<close>

lemma os_WriteFile_Inr:
  assumes "os_WriteFile name b w = (Inr u, w')" and "inode w name = Some i"
  shows "inode w' = inode w \<and> disk w' = (disk w)(i := b) \<and> next_inode w' = next_inode w"
proof -
  from assms(1) obtain j w1 w2 where
    1: "os_OpenFile_trunc name (emit (EvWriteFile name) w) = (Inr j, w1)" and
    2: "fallible () w1 = (Inr (), w2)" and
    3: "fallible () (w2\<lparr>disk := (disk w2)(j := b)\<rparr>) = (Inr u, w')"
    by (auto simp: os_WriteFile_def io_bind_Inr)
  from 1 assms(2) have a: "j = i" "store w1 = (inode w, (disk w)(i := []), next_inode w)"
    by (auto simp: os_OpenFile_trunc_def emit_def store_def
        split: prod.splits sum.splits dest!: fallible_same)
  from fallible_same [OF 2] fallible_same [OF 3] a show ?thesis
    by (simp add: store_def)
qed

lemma zip_CreateHeader_Inr:
  "zip_CreateHeader zw fh w = (Inr zw', w') \<Longrightarrow>
   zw' = zw @ [\<lparr>Name = Name fh,
                 Method = (if HasSuffix (Name fh) ''/'' then Store else Method fh),
                 Modified = Modified fh, data = []\<rparr>] \<and>
   store w' = store w"
  by (auto simp: zip_CreateHeader_def dest: fallible_same fallible_Inr)

lemma dst_Write_Inr:
  "dst_Write (zw @ [e]) p w = (Inr zw', w') \<Longrightarrow>
   zw' = zw @ [e\<lparr>data := data e @ p\<rparr>] \<and> store w' = store w"
  by (auto simp: dst_Write_def split: if_splits dest: fallible_same fallible_Inr)

lemma addPlaceholderPNGToZip_Inr:
  "addPlaceholderPNGToZip file zw blob w = (Inr zw', w') \<Longrightarrow>
   zw' = zw @ [\<lparr>Name = Name file,
                 Method = (if HasSuffix (Name file) ''/'' then Store else Deflate),
                 Modified = Modified file, data = blob\<rparr>] \<and>
   store w' = store w"
  by (auto simp: addPlaceholderPNGToZip_def Let_def io_bind_Inr wrapf_Inr
      dest!: zip_CreateHeader_Inr dst_Write_Inr)

lemma zip_File_Open_Inr:
  "zip_File_Open file w = (Inr src, w') \<Longrightarrow> src = data file \<and> store w' = store w"
  by (auto simp: zip_File_Open_def dest: fallible_same fallible_Inr)

lemma io_Copy_Inr:
  "io_Copy (zw @ [e]) src w = (Inr zw', w') \<Longrightarrow>
   zw' = zw @ [e\<lparr>data := data e @ src\<rparr>] \<and> store w' = store w"
proof -
  assume "io_Copy (zw @ [e]) src w = (Inr zw', w')"
  then obtain p w1 where 1: "fallible src w = (Inr p, w1)"
    and 2: "(if p = [] then ret (zw @ [e]) else dst_Write (zw @ [e]) p) w1 = (Inr zw', w')"
    by (auto simp: io_Copy_def io_bind_Inr)
  have s: "p = src" "store w1 = store w"
    using fallible_Inr [OF 1] fallible_same [OF 1] by simp_all
  show ?thesis
  proof (cases "p = []")
    case True
    with 2 s show ?thesis by (simp add: ret_def)
  next
    case False
    with 2 have "dst_Write (zw @ [e]) p w1 = (Inr zw', w')" by simp
    from dst_Write_Inr [OF this] s show ?thesis by simp
  qed
qed

lemma copyFileToZip_Inr:
  "copyFileToZip file zw w = (Inr zw', w') \<Longrightarrow>
   zw' = zw @ [\<lparr>Name = Name file,
                 Method = (if HasSuffix (Name file) ''/'' then Store else Deflate),
                 Modified = Modified file, data = data file\<rparr>] \<and>
   store w' = store w"
proof -
  assume "copyFileToZip file zw w = (Inr zw', w')"
  then obtain src w1 dst w2 where 1: "zip_File_Open file w = (Inr src, w1)"
    and 2: "zip_CreateHeader zw \<lparr>Name = Name file, Method = Deflate, Modified = Modified file\<rparr> w1
              = (Inr dst, w2)"
    and 3: "io_Copy dst src w2 = (Inr zw', w')"
    by (auto simp: copyFileToZip_def Let_def io_bind_Inr wrapf_Inr)
  from zip_File_Open_Inr [OF 1] have a: "src = data file" "store w1 = store w" by simp_all
  from zip_CreateHeader_Inr [OF 2]
  have b: "dst = zw @ [\<lparr>Name = Name file,
                          Method = (if HasSuffix (Name file) ''/'' then Store else Deflate),
                          Modified = Modified file, data = []\<rparr>]"
    "store w2 = store w1" by simp_all
  from io_Copy_Inr [OF 3 [unfolded b(1)]] a b show ?thesis by simp
qed

lemma processEntries_Inr:
  "processEntries input blob zw w = (Inr out, w') \<Longrightarrow>
   out = zw @ map (\<lambda>f. \<lparr>Name = Name f,
                          Method = (if HasSuffix (Name f) ''/'' then Store else Deflate),
                          Modified = Modified f,
                          data = (if Ext (Name f) = ''.png'' then blob else data f)\<rparr>)
                  (filter (\<lambda>f. \<not> shouldSkipFile (Name f)) input) \<and>
   store w' = store w"
proof (induction input arbitrary: zw w)
  case Nil
  then show ?case by (simp add: ret_def)
next
  case (Cons e rest)
  show ?case
  proof (cases "shouldSkipFile (Name e)")
    case True
    with Cons.prems have "processEntries rest blob zw
        (Printf (''Excluding file '' @ Name e @ newline) w) = (Inr out, w')" by simp
    from Cons.IH [OF this] True show ?thesis by (simp add: Printf_def store_emit)
  next
    case False
    show ?thesis
    proof (cases "Ext (Name e) = ''.png''")
      case True
      with False Cons.prems obtain zw1 w1 where
        1: "addPlaceholderPNGToZip e zw blob w = (Inr zw1, w1)" and
        2: "processEntries rest blob zw1 w1 = (Inr out, w')"
        by (auto simp: io_bind_Inr wrapf_Inr)
      from addPlaceholderPNGToZip_Inr [OF 1] Cons.IH [OF 2] False True
      show ?thesis by simp
    next
      case png: False
      with False Cons.prems obtain zw1 w1 where
        1: "copyFileToZip e zw w = (Inr zw1, w1)" and
        2: "processEntries rest blob zw1 w1 = (Inr out, w')"
        by (auto simp: io_bind_Inr wrapf_Inr)
      from copyFileToZip_Inr [OF 1] Cons.IH [OF 2] False png
      show ?thesis by simp
    qed
  qed
qed

lemma processZipFile_Inr:
  assumes "processZipFile lib zipPath ph w = (Inr u, w')"
  shows "\<exists>zb input blob i.
           files w zipPath = Some zb \<and> lib_NewReader lib zb (length zb) = Inr input \<and>
           files w ph = Some blob \<and> inode w zipPath = Some i \<and>
           inode w' = inode w \<and> next_inode w' = next_inode w \<and>
           disk w' = (disk w)(i := lib_Bytes lib
             (map (\<lambda>f. \<lparr>Name = Name f,
                          Method = (if HasSuffix (Name f) ''/'' then Store else Deflate),
                          Modified = Modified f,
                          data = (if Ext (Name f) = ''.png'' then blob else data f)\<rparr>)
                  (filter (\<lambda>f. \<not> shouldSkipFile (Name f)) input)))"
proof -
  from assms obtain zb w1 n w2 input w3 blob w4 out w5 buf w6 where
    1: "os_Open zipPath w = (Inr zb, w1)" and
    2: "file_Stat zb w1 = (Inr n, w2)" and
    3: "zip_NewReader lib zb n w2 = (Inr input, w3)" and
    4: "os_ReadFile ph w3 = (Inr blob, w4)" and
    5: "processEntries input blob zip_NewWriter w4 = (Inr out, w5)" and
    6: "zip_Close out w5 = (Inr buf, w6)" and
    7: "os_WriteFile zipPath (lib_Bytes lib buf) w6 = (Inr u, w')"
    unfolding processZipFile_def io_bind_Inr wrapf_Inr by (elim exE conjE)
  note f = os_Open_Inr [OF 1] file_Stat_Inr [OF 2] zip_NewReader_Inr [OF 3]
    os_ReadFile_Inr [OF 4] processEntries_Inr [OF 5] zip_Close_Inr [OF 6]
  from f have st: "store w6 = store w" by simp
  from f obtain i where i: "inode w zipPath = Some i" by (auto simp: files_def)
  with st have "inode w6 zipPath = Some i" by (simp add: store_def)
  from os_WriteFile_Inr [OF 7 this] st
  have "inode w' = inode w" "next_inode w' = next_inode w"
    "disk w' = (disk w)(i := lib_Bytes lib buf)"
    by (simp_all add: store_def)
  moreover from f have "store w3 = store w" by simp
  from files_store [OF this] f
  have "files w zipPath = Some zb" "lib_NewReader lib zb (length zb) = Inr input"
    "files w ph = Some blob"
    by simp_all
  moreover from f have "buf = map (\<lambda>f. \<lparr>Name = Name f,
                          Method = (if HasSuffix (Name f) ''/'' then Store else Deflate),
                          Modified = Modified f,
                          data = (if Ext (Name f) = ''.png'' then blob else data f)\<rparr>)
                  (filter (\<lambda>f. \<not> shouldSkipFile (Name f)) input)"
    by (simp add: zip_NewWriter_def)
  ultimately show ?thesis using i by blast
qed

section \<open>Runs of any result\<close>

lemma prints_only_simps:
  "prints_only []" "prints_only (EvPrint s # evs) = prints_only evs"
  "prints_only (xs @ ys) = (prints_only xs \<and> prints_only ys)"
  by (auto simp: prints_only_def)

lemma io_bind_cases:
  assumes "io_bind m f w = (r, w')"
  obtains (fail) e where "m w = (Inl e, w')" "r = Inl e"
  | (go) x w1 where "m w = (Inr x, w1)" "f x w1 = (r, w')"
  using assms by (auto simp: io_bind_def split: prod.splits sum.splits)

lemma wrapf_cases:
  assumes "wrapf msg m w = (r, w')"
  obtains (fail) e where "m w = (Inl e, w')" "r = Inl (Errorf msg e)"
  | (ok) x where "m w = (Inr x, w')" "r = Inr x"
  using assms by (auto simp: wrapf_def split: prod.splits sum.splits)

lemma stage_cases:
  assumes "io_bind (wrapf msg m) f w = (r, w')"
  obtains (fail) e where "m w = (Inl e, w')" "r = Inl (Errorf msg e)"
  | (go) x w1 where "m w = (Inr x, w1)" "f x w1 = (r, w')"
  using assms by (auto elim!: io_bind_cases wrapf_cases)

lemma os_Open_run:
  "os_Open name w = (r, w') \<Longrightarrow> store w' = store w \<and> trace w' = trace w @ [EvOpen name]"
  by (auto simp: os_Open_def Let_def emit_def store_def split: option.splits
      dest!: fallible_same)

lemma os_ReadFile_run:
  "os_ReadFile name w = (r, w') \<Longrightarrow> store w' = store w \<and> trace w' = trace w @ [EvReadFile name]"
  by (auto simp: os_ReadFile_def Let_def emit_def store_def split: option.splits
      dest!: fallible_same)

lemma file_Stat_run:
  "file_Stat f w = (r, w') \<Longrightarrow> store w' = store w \<and> trace w' = trace w"
  by (auto simp: file_Stat_def dest!: fallible_same)

lemma zip_NewReader_run:
  "zip_NewReader lib b n w = (r, w') \<Longrightarrow> store w' = store w \<and> trace w' = trace w"
  by (cases "lib_NewReader lib b n")
     (auto simp: zip_NewReader_def elim!: io_bind_cases dest!: fallible_same)

lemma zip_Close_run:
  "zip_Close zw w = (r, w') \<Longrightarrow> store w' = store w \<and> trace w' = trace w"
  by (auto simp: zip_Close_def dest!: fallible_same)

lemma zip_CreateHeader_run:
  "zip_CreateHeader zw fh w = (r, w') \<Longrightarrow> store w' = store w \<and> trace w' = trace w"
  by (auto simp: zip_CreateHeader_def dest!: fallible_same)

lemma zip_File_Open_run:
  "zip_File_Open f w = (r, w') \<Longrightarrow> store w' = store w \<and> trace w' = trace w"
  by (auto simp: zip_File_Open_def dest!: fallible_same)

lemma dst_Write_run:
  "dst_Write zw p w = (r, w') \<Longrightarrow> store w' = store w \<and> trace w' = trace w"
  by (auto simp: dst_Write_def split: list.splits if_splits dest!: fallible_same)

lemma io_Copy_run:
  "io_Copy zw src w = (r, w') \<Longrightarrow> store w' = store w \<and> trace w' = trace w"
  unfolding io_Copy_def
  by (erule io_bind_cases) (auto simp: ret_def split: if_splits dest!: fallible_same dst_Write_run)

lemma addPlaceholderPNGToZip_run:
  "addPlaceholderPNGToZip f zw blob w = (r, w') \<Longrightarrow> store w' = store w \<and> trace w' = trace w"
  unfolding addPlaceholderPNGToZip_def Let_def
  by (erule stage_cases; (erule wrapf_cases)?)
     (auto dest!: zip_CreateHeader_run dst_Write_run)

lemma copyFileToZip_run:
  "copyFileToZip f zw w = (r, w') \<Longrightarrow> store w' = store w \<and> trace w' = trace w"
  unfolding copyFileToZip_def Let_def
  apply (erule stage_cases)
   apply (auto dest!: zip_File_Open_run)[1]
  apply (erule stage_cases)
   apply (auto dest!: zip_File_Open_run zip_CreateHeader_run)[1]
  apply (erule wrapf_cases)
   apply (auto dest!: zip_File_Open_run zip_CreateHeader_run io_Copy_run)
  done

lemma os_OpenFile_trunc_run:
  assumes "os_OpenFile_trunc name w = (r, w')" and "inode w name = Some i"
  shows "trace w' = trace w \<and> inode w' = inode w \<and> next_inode w' = next_inode w \<and>
         (\<forall>j. j \<noteq> i \<longrightarrow> disk w' j = disk w j) \<and> (\<forall>x. r = Inr x \<longrightarrow> x = i)"
  using assms
  by (auto simp: os_OpenFile_trunc_def store_def split: prod.splits sum.splits
      dest!: fallible_same)

lemma os_WriteFile_run:
  assumes "os_WriteFile name b w = (r, w')" and "inode w name = Some i"
  shows "trace w' = trace w @ [EvWriteFile name] \<and> inode w' = inode w \<and>
         next_inode w' = next_inode w \<and> (\<forall>j. j \<noteq> i \<longrightarrow> disk w' j = disk w j)"
proof -
  let ?w0 = "emit (EvWriteFile name) w"
  have i0: "inode ?w0 name = Some i" using assms(2) by (simp add: emit_def)
  from assms(1) [unfolded os_WriteFile_def] show ?thesis
  proof (cases rule: io_bind_cases)
    case (fail e)
    from os_OpenFile_trunc_run [OF fail(1) i0] show ?thesis by (simp add: emit_def)
  next
    case 1: (go x w1)
    note a = os_OpenFile_trunc_run [OF 1(1) i0]
    then have x: "x = i" by simp
    from 1(2) show ?thesis
    proof (cases rule: io_bind_cases)
      case (fail e)
      from fallible_same [OF fail(1)]
      have b: "inode w' = inode w1" "disk w' = disk w1" "next_inode w' = next_inode w1"
        "trace w' = trace w1"
        by (simp_all add: store_def)
      from a have d: "inode w1 = inode w" "next_inode w1 = next_inode w"
        "trace w1 = trace w @ [EvWriteFile name]" "\<forall>j. j \<noteq> i \<longrightarrow> disk w1 j = disk w j"
        by (simp_all add: emit_def)
      show ?thesis unfolding b d using d(4) by simp
    next
      case (go u w2)
      from fallible_same [OF go(1)]
      have b: "inode w2 = inode w1" "disk w2 = disk w1" "next_inode w2 = next_inode w1"
        "trace w2 = trace w1"
        by (simp_all add: store_def)
      from fallible_same [OF go(2)]
      have c: "inode w' = inode w2" "disk w' = (disk w2)(x := b)"
        "next_inode w' = next_inode w2" "trace w' = trace w2"
        by (simp_all add: store_def)
      from a have d: "inode w1 = inode w" "next_inode w1 = next_inode w"
        "trace w1 = trace w @ [EvWriteFile name]" "\<forall>j. j \<noteq> i \<longrightarrow> disk w1 j = disk w j"
        by (simp_all add: emit_def)
      show ?thesis unfolding b c d x using d(4) by simp
    qed
  qed
qed

lemma processEntries_run:
  "processEntries input blob zw w = (r, w') \<Longrightarrow>
   store w' = store w \<and> (\<exists>prints. trace w' = trace w @ prints \<and> prints_only prints) \<and>
   (\<forall>err. r = Inl err \<longrightarrow>
      (\<exists>e. err = Errorf ''could not replace PNG file'' e \<or>
           err = Errorf ''could not copy file to new zip'' e))"
proof (induction input arbitrary: zw w)
  case Nil
  then show ?case by (auto simp: ret_def prints_only_simps)
next
  case (Cons f0 rest)
  show ?case
  proof (cases "shouldSkipFile (Name f0)")
    case True
    with Cons.prems have "processEntries rest blob zw
        (Printf (''Excluding file '' @ Name f0 @ newline) w) = (r, w')" by simp
    from Cons.IH [OF this] obtain prints where
      p: "store w' = store w" "prints_only prints"
         "trace w' = trace w @ EvPrint (''Excluding file '' @ Name f0 @ newline) # prints"
      and e: "\<forall>err. r = Inl err \<longrightarrow>
        (\<exists>e. err = Errorf ''could not replace PNG file'' e \<or>
             err = Errorf ''could not copy file to new zip'' e)"
      by (auto simp: Printf_def emit_def store_def)
    from p have "prints_only (EvPrint (''Excluding file '' @ Name f0 @ newline) # prints)"
      by (simp add: prints_only_simps)
    with p e show ?thesis by blast
  next
    case False
    show ?thesis
    proof (cases "Ext (Name f0) = ''.png''")
      case True
      with False Cons.prems have
        "io_bind (wrapf ''could not replace PNG file'' (addPlaceholderPNGToZip f0 zw blob))
           (\<lambda>zw1. processEntries rest blob zw1) w = (r, w')" by simp
      then show ?thesis
      proof (cases rule: stage_cases)
        case (fail e)
        with addPlaceholderPNGToZip_run [OF fail(1)] show ?thesis
          by (auto simp: prints_only_simps)
      next
        case (go zw1 w1)
        from addPlaceholderPNGToZip_run [OF go(1)] Cons.IH [OF go(2)] show ?thesis by auto
      qed
    next
      case png: False
      with False Cons.prems have
        "io_bind (wrapf ''could not copy file to new zip'' (copyFileToZip f0 zw))
           (\<lambda>zw1. processEntries rest blob zw1) w = (r, w')" by simp
      then show ?thesis
      proof (cases rule: stage_cases)
        case (fail e)
        with copyFileToZip_run [OF fail(1)] show ?thesis
          by (auto simp: prints_only_simps)
      next
        case (go zw1 w1)
        from copyFileToZip_run [OF go(1)] Cons.IH [OF go(2)] show ?thesis by auto
      qed
    qed
  qed
qed

lemma processZipFile_cases:
  assumes "processZipFile lib zp ph w = (r, w')"
  obtains
    (early) "early_failure r" "store w' = store w" "trace w' = trace w @ [EvOpen zp]"
  | (blob) e where "r = Inl (Errorf ''could not read placeholder PNG'' e)"
      "store w' = store w" "trace w' = trace w @ [EvOpen zp, EvReadFile ph]"
  | (entries) e prints where
      "r = Inl (Errorf ''could not replace PNG file'' e) \<or>
       r = Inl (Errorf ''could not copy file to new zip'' e) \<or>
       r = Inl (Errorf ''could not close new zip writer'' e)"
      "store w' = store w" "prints_only prints"
      "trace w' = trace w @ [EvOpen zp, EvReadFile ph] @ prints"
  | (overwrite) prints i where "overwrite_failure r \<or> r = Inr ()"
      "inode w zp = Some i" "inode w' = inode w" "next_inode w' = next_inode w"
      "\<forall>j. j \<noteq> i \<longrightarrow> disk w' j = disk w j" "prints_only prints"
      "trace w' = trace w @ [EvOpen zp, EvReadFile ph] @ prints @ [EvWriteFile zp]"
proof -
  from assms [unfolded processZipFile_def] show ?thesis
  proof (cases rule: stage_cases)
    case (fail e)
    with os_Open_run [OF fail(1)] show ?thesis
      by (intro early) (auto simp: early_failure_def)
  next
    case 1: (go zb w1)
    note a = os_Open_run [OF 1(1)]
    from 1(2) show ?thesis
    proof (cases rule: stage_cases)
      case (fail e)
      with a file_Stat_run [OF fail(1)] show ?thesis
        by (intro early) (auto simp: early_failure_def)
    next
      case 2: (go n w2)
      note b = file_Stat_run [OF 2(1)]
      from 2(2) show ?thesis
      proof (cases rule: stage_cases)
        case (fail e)
        with a b zip_NewReader_run [OF fail(1)] show ?thesis
          by (intro early) (auto simp: early_failure_def)
      next
        case 3: (go input w3)
        note c = zip_NewReader_run [OF 3(1)]
        from 3(2) show ?thesis
        proof (cases rule: stage_cases)
          case (fail e)
          with a b c os_ReadFile_run [OF fail(1)] show ?thesis
            by (intro blob [of e]) auto
        next
          case 4: (go pb w4)
          note d = os_ReadFile_run [OF 4(1)]
          from 4(2) show ?thesis
          proof (cases rule: io_bind_cases)
            case (fail e)
            from processEntries_run [OF fail(1)] fail(2) obtain prints e0 where
              "store w' = store w4" "trace w' = trace w4 @ prints" "prints_only prints"
              "r = Inl (Errorf ''could not replace PNG file'' e0) \<or>
               r = Inl (Errorf ''could not copy file to new zip'' e0)"
              by auto
            with a b c d show ?thesis
              by (intro entries [of e0 prints]) auto
          next
            case 5: (go out w5)
            from processEntries_run [OF 5(1)] obtain prints where
              p: "store w5 = store w4" "trace w5 = trace w4 @ prints" "prints_only prints"
              by auto
            from 5(2) show ?thesis
            proof (cases rule: stage_cases)
              case (fail e)
              with a b c d p zip_Close_run [OF fail(1)] show ?thesis
                by (intro entries [of e prints]) auto
            next
              case 6: (go buf w6)
              note g = zip_Close_run [OF 6(1)]
              from os_Open_Inr [OF 1(1)] obtain i where i: "inode w zp = Some i"
                by (auto simp: files_def)
              from a b c d p g have st: "store w6 = store w" by simp
              with i have i6: "inode w6 zp = Some i" by (simp add: store_def)
              from a b c d p g have tr: "trace w6 = trace w @ [EvOpen zp, EvReadFile ph] @ prints"
                by simp
              from st have st': "inode w6 = inode w" "disk w6 = disk w"
                "next_inode w6 = next_inode w"
                by (simp_all add: store_def)
              from 6(2) show ?thesis
              proof (cases rule: wrapf_cases)
                case (fail e)
                from os_WriteFile_run [OF fail(1) i6] fail(2) i tr p show ?thesis
                  unfolding st'
                  by (intro overwrite [where i = i and prints = prints]) (auto simp: overwrite_failure_def)
              next
                case (ok u)
                from os_WriteFile_run [OF ok(1) i6] ok(2) i tr p show ?thesis
                  unfolding st'
                  by (intro overwrite [where i = i and prints = prints]) auto
              qed
            qed
          qed
        qed
      qed
    qed
  qed
qed

section \<open>Runs without faults\<close>

lemma emit_simps:
  "files (emit e w) = files w" "faults (emit e w) = faults w" "trace (emit e w) = trace w @ [e]"
  by (rule files_emit) (simp_all add: emit_def)

lemma fallible_ok: "faults w = [] \<Longrightarrow> fallible x w = (Inr x, w)"
  by (simp add: fallible_def next_fault_def)

lemma os_Open_ok:
  "faults w = [] \<Longrightarrow> files w name = Some b \<Longrightarrow> os_Open name w = (Inr b, emit (EvOpen name) w)"
  by (simp add: os_Open_def Let_def emit_simps fallible_ok)

lemma os_ReadFile_ok:
  "faults w = [] \<Longrightarrow> files w name = Some b \<Longrightarrow>
   os_ReadFile name w = (Inr b, emit (EvReadFile name) w)"
  by (simp add: os_ReadFile_def Let_def emit_simps fallible_ok)

lemma zip_NewReader_ok:
  "faults w = [] \<Longrightarrow> lib_NewReader lib b n = Inr input \<Longrightarrow>
   zip_NewReader lib b n w = (Inr input, w)"
  by (simp add: zip_NewReader_def io_bind_def fallible_ok)

lemma os_WriteFile_ok:
  "faults w = [] \<Longrightarrow> \<exists>w'. os_WriteFile name b w = (Inr (), w') \<and> faults w' = []"
  by (cases "inode w name")
     (simp_all add: os_WriteFile_def os_OpenFile_trunc_def io_bind_def fallible_ok emit_def)

text \<open>A directory entry has no extension, so it is never taken for an image.\<close>

lemma HasSuffix_slash: "HasSuffix name ''/'' \<Longrightarrow> \<exists>xs. name = xs @ ''/''"
proof -
  assume "HasSuffix name ''/''"
  then have "drop (length name - 1) name = ''/''" by (simp add: HasSuffix_def)
  then have "name = take (length name - 1) name @ ''/''"
    by (metis append_take_drop_id)
  then show ?thesis by blast
qed

lemma Ext_directory: "HasSuffix name ''/'' \<Longrightarrow> Ext name = []"
  by (auto dest!: HasSuffix_slash simp: Ext_extension extension_snoc)

lemma addPlaceholderPNGToZip_ok:
  "faults w = [] \<Longrightarrow> \<not> HasSuffix (Name f) ''/'' \<Longrightarrow>
   addPlaceholderPNGToZip f zw blob w =
     (Inr (zw @ [\<lparr>Name = Name f, Method = Deflate, Modified = Modified f, data = blob\<rparr>]), w)"
  by (simp add: addPlaceholderPNGToZip_def Let_def io_bind_def wrapf_def zip_CreateHeader_def
      dst_Write_def fallible_ok)

lemma copyFileToZip_ok:
  "faults w = [] \<Longrightarrow> (HasSuffix (Name f) ''/'' \<longrightarrow> data f = []) \<Longrightarrow>
   copyFileToZip f zw w =
     (Inr (zw @ [\<lparr>Name = Name f,
                   Method = (if HasSuffix (Name f) ''/'' then Store else Deflate),
                   Modified = Modified f, data = data f\<rparr>]), w)"
  by (simp add: copyFileToZip_def Let_def io_bind_def wrapf_def zip_CreateHeader_def
      zip_File_Open_def io_Copy_def dst_Write_def ret_def fallible_ok)

text \<open>
  Without faults the loop ends without error on every archive whose directory entries
  hold no bytes.
\<close>

lemma processEntries_succeeds:
  "faults w = [] \<Longrightarrow> \<forall>f \<in> set input. HasSuffix (Name f) ''/'' \<longrightarrow> data f = [] \<Longrightarrow>
   \<exists>out w'. processEntries input blob zw w = (Inr out, w') \<and> faults w' = []"
proof (induction input arbitrary: zw w)
  case Nil
  then show ?case by (simp add: ret_def)
next
  case (Cons f0 rest)
  from Cons.prems have rest: "\<forall>f \<in> set rest. HasSuffix (Name f) ''/'' \<longrightarrow> data f = []"
    and f0: "HasSuffix (Name f0) ''/'' \<longrightarrow> data f0 = []"
    by simp_all
  show ?case
  proof (cases "shouldSkipFile (Name f0)")
    case True
    have "faults (Printf (''Excluding file '' @ Name f0 @ newline) w) = []"
      using Cons.prems by (simp add: Printf_def emit_simps)
    from Cons.IH [OF this rest] True show ?thesis by simp
  next
    case False
    show ?thesis
    proof (cases "Ext (Name f0) = ''.png''")
      case True
      then have "\<not> HasSuffix (Name f0) ''/''" using Ext_directory [of "Name f0"] by auto
      with True False Cons.prems(1) Cons.IH [OF Cons.prems(1) rest] show ?thesis
        by (simp add: io_bind_def wrapf_def addPlaceholderPNGToZip_ok)
    next
      case png: False
      with False Cons.prems(1) f0 Cons.IH [OF Cons.prems(1) rest] show ?thesis
        by (simp add: io_bind_def wrapf_def copyFileToZip_ok)
    qed
  qed
qed

lemma processZipFile_succeeds:
  assumes "faults w = []" and "files w zipPath = Some zb"
    and "lib_NewReader lib zb (length zb) = Inr input" and "files w ph = Some blob"
    and "\<forall>f \<in> set input. HasSuffix (Name f) ''/'' \<longrightarrow> data f = []"
  shows "\<exists>w'. processZipFile lib zipPath ph w = (Inr (), w') \<and> faults w' = []"
proof -
  let ?w1 = "emit (EvOpen zipPath) w"
  let ?w2 = "emit (EvReadFile ph) ?w1"
  have 1: "os_Open zipPath w = (Inr zb, ?w1)" using assms by (simp add: os_Open_ok)
  have f1: "faults ?w1 = []" using assms by (simp add: emit_simps)
  have 2: "file_Stat zb ?w1 = (Inr (length zb), ?w1)"
    using f1 by (simp add: file_Stat_def fallible_ok)
  have 3: "zip_NewReader lib zb (length zb) ?w1 = (Inr input, ?w1)"
    using f1 assms by (simp add: zip_NewReader_ok)
  have 4: "os_ReadFile ph ?w1 = (Inr blob, ?w2)"
    using f1 assms by (simp add: os_ReadFile_ok emit_simps)
  have f2: "faults ?w2 = []" using f1 by (simp add: emit_simps)
  from processEntries_succeeds [OF f2 assms(5)] obtain out w3 where
    5: "processEntries input blob zip_NewWriter ?w2 = (Inr out, w3)" and f3: "faults w3 = []"
    by blast
  have 6: "zip_Close out w3 = (Inr out, w3)" using f3 by (simp add: zip_Close_def fallible_ok)
  from os_WriteFile_ok [OF f3] obtain w' where
    7: "os_WriteFile zipPath (lib_Bytes lib out) w3 = (Inr (), w')" and f4: "faults w' = []"
    by blast
  have "processZipFile lib zipPath ph w = (Inr (), w')"
    by (simp add: processZipFile_def io_bind_def wrapf_def 1 2 3 4 5 6 7)
  with f4 show ?thesis by blast
qed

section \<open>Jobs and the walk\<close>

lemma opened_append: "opened (xs @ ys) = opened xs @ opened ys"
  by (induction xs rule: opened.induct) auto

lemma opened_prints: "prints_only evs \<Longrightarrow> opened evs = []"
  by (induction evs rule: opened.induct) (auto simp: prints_only_def)

lemma processZipFile_opened:
  assumes "processZipFile lib zp ph w = (r, w')"
  shows "opened (trace w') = opened (trace w) @ [zp]"
  using assms
  by (cases rule: processZipFile_cases) (simp_all add: opened_append opened_prints)

text \<open>
  What a run of \<open>processZipFile\<close> can do to the disk: no path is made or taken away, and
  the only file whose bytes can change is the one its path leads to.
\<close>

lemma processZipFile_effect:
  assumes "processZipFile lib zp ph w = (r, w')"
  shows "inode w' = inode w \<and> next_inode w' = next_inode w \<and>
         (\<forall>j. inode w zp \<noteq> Some j \<longrightarrow> disk w' j = disk w j)"
  using assms by (cases rule: processZipFile_cases) (auto simp: store_def)

lemma os_Remove_run:
  "os_Remove name w = (r, w') \<Longrightarrow>
   trace w' = trace w @ [EvRemove name] \<and> disk w' = disk w \<and> next_inode w' = next_inode w \<and>
   (r = None \<longrightarrow> inode w' = (inode w)(name := None)) \<and> (r \<noteq> None \<longrightarrow> inode w' = inode w)"
  by (auto simp: os_Remove_def next_fault_def emit_def split: list.splits option.splits)

lemma os_Remove_trace: "trace (snd (os_Remove name w)) = trace w @ [EvRemove name]"
  using os_Remove_run [of name w] by (cases "os_Remove name w") simp

lemma job_opened: "opened (trace (job lib zp ph w)) = opened (trace w) @ [zp]"
proof (cases "processZipFile lib zp ph w")
  case (Pair r w1)
  from processZipFile_opened [OF Pair] Pair show ?thesis
    by (cases r) (simp_all add: job_def os_Remove_trace Printf_def emit_def opened_append)
qed

text \<open>
  What a job can do to the disk: the only path it can take away is its own, and the only
  file whose bytes it can change is the one its path leads to.
\<close>

lemma job_effect:
  "(\<forall>p. p \<noteq> zp \<longrightarrow> inode (job lib zp ph w) p = inode w p) \<and>
   (inode (job lib zp ph w) zp = None \<or> inode (job lib zp ph w) zp = inode w zp) \<and>
   (\<forall>j. inode w zp \<noteq> Some j \<longrightarrow> disk (job lib zp ph w) j = disk w j)"
proof (cases "processZipFile lib zp ph w")
  case (Pair r w1)
  note e = processZipFile_effect [OF Pair]
  show ?thesis
  proof (cases r)
    case (Inr u)
    with Pair e show ?thesis by (simp add: job_def)
  next
    case (Inl err)
    let ?w2 = "Printf (''Error processing zip file '' @ zp @ '': '' @ Error err @ newline) w1"
    obtain r3 w3 where rm: "os_Remove zp ?w2 = (r3, w3)" by (cases "os_Remove zp ?w2")
    from os_Remove_run [OF rm] have
      "disk w3 = disk w1" "inode w3 = (inode w1)(zp := None) \<or> inode w3 = inode w1"
      by (auto simp: Printf_def emit_def)
    moreover have "job lib zp ph w = w3" using Pair Inl rm by (simp add: job_def)
    ultimately show ?thesis using e by auto
  qed
qed

lemma run_visits_append:
  "run_visits fn (xs @ ys) w =
     (case run_visits fn xs w of
        (Some err, w1) \<Rightarrow> (Some err, w1)
      | (None, w1) \<Rightarrow> run_visits fn ys w1)"
  by (induction xs arbitrary: w) (auto split: prod.splits option.splits)

lemma walk_run_visits:
  "walk fn t w = run_visits fn (preorder t) w"
  "walk_names fn ts w = run_visits fn (preorder_names ts) w"
  by (induction fn t w and fn ts w rule: walk_walk_names.induct)
     (auto simp: run_visits_append split: prod.splits option.splits)

section \<open>The rewriter\<close>

lemma Ext_demo:
  "Ext ''control.lua'' = ''.lua''" "Ext ''graphics/icon.png'' = ''.png''"
  "Ext ''info.json'' = ''.json''" "Ext ''locale/en/base.cfg'' = ''.cfg''"
  "Ext ''a.zip'' = ''.zip''" "Ext ''b.zip'' = ''.zip''" "Ext ''notes.txt'' = ''.txt''"
  by (simp_all add: Ext_def IsPathSeparator_def)

lemma shouldSkipFile_demo:
  "shouldSkipFile ''control.lua''" "\<not> shouldSkipFile ''graphics/icon.png''"
  "\<not> shouldSkipFile ''info.json''" "\<not> shouldSkipFile ''locale/en/base.cfg''"
  by code_simp+

lemma demo_world_simps:
  "faults demo_world = []" "trace demo_world = []"
  "files demo_world ''./placeholder.png'' = Some demo_blob"
  "files demo_world ''maps/a.zip'' = Some [0x50, 0x4B, 0x01]"
  "files demo_world ''maps/b.zip'' = Some [0x50, 0x4B, 0x02]"
  "files demo_world ''maps/broken.zip'' = Some [0x00]"
  by (simp_all add: demo_world_def files_def)

lemma no_directories_demo:
  "\<forall>f \<in> set demo_mod. HasSuffix (Name f) ''/'' \<longrightarrow> data f = []"
  "\<forall>f \<in> set demo_plain. HasSuffix (Name f) ''/'' \<longrightarrow> data f = []"
  "\<forall>f \<in> set demo_plain_out. HasSuffix (Name f) ''/'' \<longrightarrow> data f = []"
  by (simp_all add: demo_mod_def demo_plain_def demo_plain_out_def HasSuffix_def)

lemma processZipFile_written:
  assumes "processZipFile lib zipPath ph w = (Inr u, w')"
    and "files w zipPath = Some zb"
    and "lib_NewReader lib zb (length zb) = Inr input"
    and "files w ph = Some blob"
  shows "files w' zipPath = Some (lib_Bytes lib
           (map (\<lambda>f. \<lparr>Name = Name f,
                        Method = (if HasSuffix (Name f) ''/'' then Store else Deflate),
                        Modified = Modified f,
                        data = (if Ext (Name f) = ''.png'' then blob else data f)\<rparr>)
                (filter (\<lambda>f. \<not> shouldSkipFile (Name f)) input)))"
  using processZipFile_Inr [OF assms(1)] assms(2-4) by (auto simp: files_def)

text \<open>
  Claim C1. When \<open>processZipFile\<close> returns no error, the archive it leaves at the path holds
  the entries of the archive it read, in their order, without those whose name
  \<open>shouldSkipFile\<close> excludes; every entry kept has its name and its time of modification,
  and the placeholder as content when its extension is \<open>.png\<close>.
\<close>

theorem processZipFile_output:
  assumes "files w zipPath = Some zb"
    and "lib_NewReader lib zb (length zb) = Inr input"
    and "files w ph = Some blob"
    and "processZipFile lib zipPath ph w = (Inr u, w')"
  shows "files w' zipPath = Some (lib_Bytes lib
           (map (\<lambda>f. \<lparr>Name = Name f,
                        Method = (if HasSuffix (Name f) ''/'' then Store else Deflate),
                        Modified = Modified f,
                        data = (if Ext (Name f) = ''.png'' then blob else data f)\<rparr>)
                (filter (\<lambda>f. \<not> shouldSkipFile (Name f)) input)))"
  by (rule processZipFile_written [OF assms(4) assms(1-3)])

text \<open>The archive \<open>maps/a.zip\<close> of the small run: the script goes, the image is replaced.\<close>

theorem processZipFile_output_witness:
  "\<exists>w'. processZipFile demo_lib ''maps/a.zip'' placeholderPNGPath demo_world = (Inr (), w') \<and>
        files w' ''maps/a.zip'' = Some (lib_Bytes demo_lib
          [\<lparr>Name = ''graphics/icon.png'', Method = Deflate, Modified = 1700000001,
             data = demo_blob\<rparr>,
           \<lparr>Name = ''info.json'', Method = Deflate, Modified = 1700000002,
             data = [0x7B, 0x7D]\<rparr>])"
proof -
  have a: "files demo_world ''maps/a.zip'' = Some [0x50, 0x4B, 0x01]"
    and b: "lib_NewReader demo_lib [0x50, 0x4B, 0x01] (length [0x50, 0x4B, 0x01 :: 8 word])
              = Inr demo_mod"
    and c: "files demo_world placeholderPNGPath = Some demo_blob"
    by (simp_all add: demo_world_def files_def demo_lib_def placeholderPNGPath_def)
  from processZipFile_succeeds [OF demo_world_simps(1) a b c no_directories_demo(1)]
  obtain w' where
    run: "processZipFile demo_lib ''maps/a.zip'' placeholderPNGPath demo_world = (Inr (), w')"
    by blast
  from processZipFile_output [OF a b c run] run show ?thesis
    by (simp add: demo_mod_def Ext_demo shouldSkipFile_demo HasSuffix_def)
qed

text \<open>
  Claim C3, as the program and the library have it. An entry that is kept and whose
  extension is not \<open>.png\<close> is copied: when the loop over the entries ends without error,
  the writer holds one entry for each entry kept, and the one at the place of such an
  entry has its name, its time of modification and its decoded bytes. Its method is
  Deflate, as the program asks, unless the entry is a directory (its name ends in a
  slash): the library gives a directory the method Store.
\<close>

theorem processEntries_copies_verbatim:
  assumes "processEntries input blob zip_NewWriter w = (Inr out, w')"
    and "kept = filter (\<lambda>f. \<not> shouldSkipFile (Name f)) input"
    and "i < length kept"
    and "Ext (Name (kept ! i)) \<noteq> ''.png''"
  shows "length out = length kept \<and>
         Name (out ! i) = Name (kept ! i) \<and>
         Modified (out ! i) = Modified (kept ! i) \<and>
         Method (out ! i) = (if HasSuffix (Name (kept ! i)) ''/'' then Store else Deflate) \<and>
         data (out ! i) = data (kept ! i)"
  using processEntries_Inr [OF assms(1)] assms(2-4) by (simp add: zip_NewWriter_def)

text \<open>The entry \<open>info.json\<close>, the second one kept of \<open>maps/a.zip\<close>.\<close>

theorem processEntries_copies_verbatim_witness:
  "\<exists>out w'. processEntries demo_mod demo_blob zip_NewWriter demo_world = (Inr out, w') \<and>
     length out = 2 \<and> Name (out ! 1) = ''info.json'' \<and> Modified (out ! 1) = 1700000002 \<and>
     Method (out ! 1) = Deflate \<and> data (out ! 1) = [0x7B, 0x7D]"
proof -
  from processEntries_succeeds [OF demo_world_simps(1) no_directories_demo(1)]
  obtain out w' where
    run: "processEntries demo_mod demo_blob zip_NewWriter demo_world = (Inr out, w')"
    by blast
  have kept: "[demo_mod ! 1, demo_mod ! 2] = filter (\<lambda>f. \<not> shouldSkipFile (Name f)) demo_mod"
    by (simp add: demo_mod_def shouldSkipFile_demo)
  have "length out = length [demo_mod ! 1, demo_mod ! 2] \<and>
         Name (out ! 1) = Name ([demo_mod ! 1, demo_mod ! 2] ! 1) \<and>
         Modified (out ! 1) = Modified ([demo_mod ! 1, demo_mod ! 2] ! 1) \<and>
         Method (out ! 1) =
           (if HasSuffix (Name ([demo_mod ! 1, demo_mod ! 2] ! 1)) ''/'' then Store else Deflate) \<and>
         data (out ! 1) = data ([demo_mod ! 1, demo_mod ! 2] ! 1)"
    by (rule processEntries_copies_verbatim [OF run kept])
       (simp_all add: demo_mod_def Ext_demo)
  with run show ?thesis by (simp add: demo_mod_def HasSuffix_def)
qed

text \<open>
  An archive with the directory entry \<open>locale/\<close>: the entry is kept, it is not a \<open>.png\<close>,
  and it is written with the method Store, not Deflate.
\<close>

theorem directory_entry_is_stored:
  "processEntries demo_dirs demo_blob zip_NewWriter demo_world =
     (Inr [\<lparr>Name = ''locale/'', Method = Store, Modified = 1700000004, data = []\<rparr>,
           \<lparr>Name = ''locale/en.cfg'', Method = Deflate, Modified = 1700000005, data = [0x61]\<rparr>],
      demo_world) \<and>
   \<not> shouldSkipFile ''locale/'' \<and> Ext ''locale/'' \<noteq> ''.png'' \<and> Store \<noteq> Deflate"
proof -
  have n: "\<not> shouldSkipFile ''locale/''" "\<not> shouldSkipFile ''locale/en.cfg''"
    by code_simp+
  have e: "Ext ''locale/'' = []" "Ext ''locale/en.cfg'' = ''.cfg''"
    by (simp_all add: Ext_def IsPathSeparator_def)
  have f: "faults demo_world = []" by (simp add: demo_world_def)
  have "processEntries demo_dirs demo_blob zip_NewWriter demo_world =
     (Inr [\<lparr>Name = ''locale/'', Method = Store, Modified = 1700000004, data = []\<rparr>,
           \<lparr>Name = ''locale/en.cfg'', Method = Deflate, Modified = 1700000005, data = [0x61]\<rparr>],
      demo_world)"
    by (simp add: demo_dirs_def n e io_bind_def wrapf_def ret_def copyFileToZip_ok [OF f]
        HasSuffix_def zip_NewWriter_def)
  with n e show ?thesis by (simp add: Store_def Deflate_def)
qed

lemma plain_filter:
  "\<forall>f \<in> set input. \<not> shouldSkipFile (Name f) \<and> Ext (Name f) \<noteq> ''.png'' \<Longrightarrow>
   map (\<lambda>f. \<lparr>Name = Name f,
                Method = (if HasSuffix (Name f) ''/'' then Store else Deflate),
                Modified = Modified f,
                data = (if Ext (Name f) = ''.png'' then blob else data f)\<rparr>)
       (filter (\<lambda>f. \<not> shouldSkipFile (Name f)) input)
   = map (\<lambda>f. f\<lparr>Method := (if HasSuffix (Name f) ''/'' then Store else Deflate)\<rparr>) input"
  by (induction input) auto

text \<open>
  Claim C4. For an archive whose entries are all kept and none a \<open>.png\<close>, a rewrite that
  succeeds leaves an archive with the same names, times of modification and decoded
  bytes, each entry with the method the writer gives it (Deflate, or Store for a
  directory); and when the library reads that archive back as it was written, a second
  rewrite that succeeds leaves the same archive again.
\<close>

theorem plain_archive_roundtrip:
  assumes "files w zipPath = Some zb"
    and "lib_NewReader lib zb (length zb) = Inr input"
    and "\<forall>f \<in> set input. \<not> shouldSkipFile (Name f) \<and> Ext (Name f) \<noteq> ''.png''"
    and "out = map (\<lambda>f. f\<lparr>Method := (if HasSuffix (Name f) ''/'' then Store else Deflate)\<rparr>)
                 input"
    and "processZipFile lib zipPath ph w = (Inr u1, w1)"
    and "lib_NewReader lib (lib_Bytes lib out) (length (lib_Bytes lib out)) = Inr out"
    and "processZipFile lib zipPath ph w1 = (Inr u2, w2)"
  shows "files w1 zipPath = Some (lib_Bytes lib out) \<and>
         map Name out = map Name input \<and>
         map Modified out = map Modified input \<and>
         map data out = map data input \<and>
         files w2 zipPath = files w1 zipPath"
proof -
  from processZipFile_Inr [OF assms(5)] obtain blob where
    blob: "files w ph = Some blob" by blast
  from processZipFile_written [OF assms(5) assms(1,2) blob] plain_filter [OF assms(3)] assms(4)
  have 1: "files w1 zipPath = Some (lib_Bytes lib out)" by simp
  have plain_out: "\<forall>f \<in> set out. \<not> shouldSkipFile (Name f) \<and> Ext (Name f) \<noteq> ''.png''"
    using assms(3,4) by auto
  from processZipFile_Inr [OF assms(7)] obtain blob2 where
    blob2: "files w1 ph = Some blob2" by blast
  from processZipFile_written [OF assms(7) 1 assms(6) blob2] plain_filter [OF plain_out]
  have "files w2 zipPath = Some (lib_Bytes lib
      (map (\<lambda>f. f\<lparr>Method := (if HasSuffix (Name f) ''/'' then Store else Deflate)\<rparr>) out))"
    by simp
  moreover have
    "map (\<lambda>f. f\<lparr>Method := (if HasSuffix (Name f) ''/'' then Store else Deflate)\<rparr>) out = out"
    using assms(4) by simp
  ultimately have 2: "files w2 zipPath = files w1 zipPath" using 1 by simp
  from 1 2 assms(4) show ?thesis by (simp add: comp_def)
qed

text \<open>The archive \<open>maps/b.zip\<close> of the small run, rewritten twice.\<close>

theorem plain_archive_roundtrip_witness:
  "\<exists>w1 w2.
     processZipFile demo_lib ''maps/b.zip'' placeholderPNGPath demo_world = (Inr (), w1) \<and>
     processZipFile demo_lib ''maps/b.zip'' placeholderPNGPath w1 = (Inr (), w2) \<and>
     files w1 ''maps/b.zip'' = Some (lib_Bytes demo_lib demo_plain_out) \<and>
     map Name demo_plain_out = map Name demo_plain \<and>
     map Modified demo_plain_out = map Modified demo_plain \<and>
     map data demo_plain_out = map data demo_plain \<and>
     files w2 ''maps/b.zip'' = files w1 ''maps/b.zip''"
proof -
  have a: "files demo_world ''maps/b.zip'' = Some [0x50, 0x4B, 0x02]"
    and b: "lib_NewReader demo_lib [0x50, 0x4B, 0x02] (length [0x50, 0x4B, 0x02 :: 8 word])
              = Inr demo_plain"
    and c: "files demo_world placeholderPNGPath = Some demo_blob"
    by (simp_all add: demo_world_def files_def demo_lib_def placeholderPNGPath_def)
  have plain: "\<forall>f \<in> set demo_plain. \<not> shouldSkipFile (Name f) \<and> Ext (Name f) \<noteq> ''.png''"
    by (simp add: demo_plain_def Ext_demo shouldSkipFile_demo)
  have out: "demo_plain_out =
      map (\<lambda>f. f\<lparr>Method := (if HasSuffix (Name f) ''/'' then Store else Deflate)\<rparr>) demo_plain"
    by (simp add: demo_plain_out_def demo_plain_def HasSuffix_def)
  have rt: "lib_NewReader demo_lib (lib_Bytes demo_lib demo_plain_out)
      (length (lib_Bytes demo_lib demo_plain_out)) = Inr demo_plain_out"
    by (simp add: demo_lib_def)
  from processZipFile_succeeds [OF demo_world_simps(1) a b c no_directories_demo(2)]
  obtain w1 where
    run1: "processZipFile demo_lib ''maps/b.zip'' placeholderPNGPath demo_world = (Inr (), w1)"
    and f1: "faults w1 = []"
    by blast
  from processZipFile_written [OF run1 a b c] plain_filter [OF plain] out
  have a1: "files w1 ''maps/b.zip'' = Some (lib_Bytes demo_lib demo_plain_out)"
    by simp
  from processZipFile_Inr [OF run1]
  have "inode w1 = inode demo_world" "\<exists>x. disk w1 = (disk demo_world)(3 := x)"
    by (auto simp: demo_world_def)
  then have c1: "files w1 placeholderPNGPath = Some demo_blob"
    by (auto simp: files_def placeholderPNGPath_def demo_world_def)
  from processZipFile_succeeds [OF f1 a1 rt c1 no_directories_demo(3)] obtain w2 where
    run2: "processZipFile demo_lib ''maps/b.zip'' placeholderPNGPath w1 = (Inr (), w2)"
    by blast
  from plain_archive_roundtrip [OF a b plain out run1 rt run2] run1 run2
  show ?thesis by blast
qed

lemmas run_defs = main_def Walk_def os_Stat_def IsNotExist_def ENOENT_def Printf_def emit_def
  next_fault_def fallible_def job_def processZipFile_def io_bind_def wrapf_def ret_def
  os_Open_def file_Stat_def zip_NewReader_def os_ReadFile_def zip_NewWriter_def
  addPlaceholderPNGToZip_def copyFileToZip_def zip_CreateHeader_def dst_Write_def
  io_Copy_def zip_File_Open_def zip_Close_def os_WriteFile_def os_OpenFile_trunc_def
  os_Remove_def files_def HasSuffix_def placeholderPNGPath_def IsDir_def Let_def

lemmas demo_defs = demo_tree_def demo_world_def demo_lib_def demo_mod_def demo_plain_def
  demo_plain_out_def demo_blob_def

section \<open>A job that fails\<close>

lemma processZipFile_Inl_Errorf:
  assumes "processZipFile lib zp ph w = (Inl err, w')"
  shows "\<exists>stage cause. err = Errorf stage cause"
  using assms
  by (cases rule: processZipFile_cases) (auto simp: early_failure_def overwrite_failure_def)

lemma processZipFile_no_write:
  assumes "processZipFile lib zp ph w = (r, w')" and "\<not> overwrite_failure r" and "r \<noteq> Inr ()"
  shows "store w' = store w \<and>
         (\<exists>evs. trace w' = trace w @ evs \<and> (\<forall>p. EvWriteFile p \<notin> set evs))"
  using assms
proof (cases rule: processZipFile_cases)
  case (entries e prints)
  then have "\<forall>p. EvWriteFile p \<notin> set ([EvOpen zp, EvReadFile ph] @ prints)"
    by (auto simp: prints_only_def)
  with entries show ?thesis by blast
qed auto

lemma processZipFile_trace:
  assumes "processZipFile lib zp ph w = (r, w')"
  shows "\<exists>evs. trace w' = trace w @ evs"
  using assms by (cases rule: processZipFile_cases) auto

text \<open>
  Claim C5, as the program has it. When \<open>processZipFile\<close> fails for an archive, at whatever
  step, the job prints the line \<open>Error processing zip file\<close> with the path and the text of
  the error, which names the step and its cause, and calls \<open>os.Remove\<close> on the path,
  whose result it drops. When the removal succeeds, the path is gone. When it fails, the
  archive stays, as the rewrite left it: as it was, unless the step that failed is the
  last one, the overwrite, for the new archive is built in memory and the file is not
  written to before. No other path is taken away, and a file that the path of the archive
  does not lead to is not changed. The callback that started the job returns \<open>nil\<close>, so
  the walk goes on with the next objects.
\<close>

theorem failed_job:
  assumes "processZipFile lib zipPath ph w = (Inl err, w1)"
    and "os_Remove zipPath
           (Printf (''Error processing zip file '' @ zipPath @ '': '' @ Error err @ newline) w1)
         = (rm, w2)"
  shows "(\<exists>stage cause. err = Errorf stage cause) \<and>
         job lib zipPath ph w = w2 \<and>
         (\<exists>evs. trace w2 =
                  trace w @ evs @
                  [EvPrint (''Error processing zip file '' @ zipPath @ '': '' @ Error err @ newline),
                   EvRemove zipPath] \<and>
                (\<not> overwrite_failure (Inl err) \<longrightarrow> (\<forall>p. EvWriteFile p \<notin> set evs))) \<and>
         (rm = None \<longrightarrow> files w2 zipPath = None) \<and>
         (rm \<noteq> None \<longrightarrow> files w2 = files w1) \<and>
         (\<not> overwrite_failure (Inl err) \<longrightarrow> files w1 = files w) \<and>
         (\<forall>p. p \<noteq> zipPath \<longrightarrow> inode w2 p = inode w p) \<and>
         (\<forall>p. p \<noteq> zipPath \<and> inode w p \<noteq> inode w zipPath \<longrightarrow> files w2 p = files w p) \<and>
         (\<forall>name k ts. Ext name = ''.zip'' \<longrightarrow>
            walk_names (walkFn lib ph) (Leaf zipPath name k # ts) w =
            walk_names (walkFn lib ph) ts (job lib zipPath ph w))"
proof -
  define msg where
    "msg = ''Error processing zip file '' @ zipPath @ '': '' @ Error err @ newline"
  have j: "job lib zipPath ph w = w2"
    using assms by (simp add: job_def)
  from os_Remove_run [OF assms(2)] have rm:
    "trace w2 = trace w1 @ [EvPrint msg, EvRemove zipPath]" "disk w2 = disk w1"
    "rm = None \<longrightarrow> inode w2 = (inode w1)(zipPath := None)"
    "rm \<noteq> None \<longrightarrow> inode w2 = inode w1"
    unfolding msg_def by (simp_all add: Printf_def emit_def)
  have 1: "\<exists>stage cause. err = Errorf stage cause"
    by (rule processZipFile_Inl_Errorf [OF assms(1)])
  have 2: "\<exists>evs. trace w2 =
                  trace w @ evs @
                  [EvPrint (''Error processing zip file '' @ zipPath @ '': '' @ Error err @ newline),
                   EvRemove zipPath] \<and>
                (\<not> overwrite_failure (Inl err) \<longrightarrow> (\<forall>p. EvWriteFile p \<notin> set evs))"
  proof (cases "overwrite_failure (Inl err)")
    case True
    from processZipFile_trace [OF assms(1)] obtain evs where "trace w1 = trace w @ evs"
      by blast
    with True rm(1) show ?thesis unfolding msg_def by simp
  next
    case False
    from processZipFile_no_write [OF assms(1) False] obtain evs where
      "trace w1 = trace w @ evs" "\<forall>p. EvWriteFile p \<notin> set evs" by auto
    with rm(1) show ?thesis unfolding msg_def by auto
  qed
  have 3: "rm = None \<longrightarrow> files w2 zipPath = None"
    using rm(3) by (simp add: files_def)
  have 4: "rm \<noteq> None \<longrightarrow> files w2 = files w1"
  proof
    assume "rm \<noteq> None"
    with rm have "inode w2 = inode w1" "disk w2 = disk w1" by simp_all
    then show "files w2 = files w1" by (intro ext) (simp add: files_def)
  qed
  have 5: "\<not> overwrite_failure (Inl err) \<longrightarrow> files w1 = files w"
  proof
    assume "\<not> overwrite_failure (Inl err)"
    from processZipFile_no_write [OF assms(1) this] have "store w1 = store w" by simp
    then show "files w1 = files w" by (rule files_store)
  qed
  note e = job_effect [of zipPath lib ph w, unfolded j]
  have 6: "\<forall>p. p \<noteq> zipPath \<longrightarrow> inode w2 p = inode w p"
    using e by blast
  have 7: "\<forall>p. p \<noteq> zipPath \<and> inode w p \<noteq> inode w zipPath \<longrightarrow> files w2 p = files w p"
  proof (intro allI impI)
    fix p assume a: "p \<noteq> zipPath \<and> inode w p \<noteq> inode w zipPath"
    with e have i: "inode w2 p = inode w p" by blast
    show "files w2 p = files w p"
    proof (cases "inode w p")
      case None
      with i show ?thesis by (simp add: files_def)
    next
      case (Some n)
      with a have "inode w zipPath \<noteq> Some n" by auto
      with e have "disk w2 n = disk w n" by blast
      with i Some show ?thesis by (simp add: files_def)
    qed
  qed
  have 8: "\<forall>name k ts. Ext name = ''.zip'' \<longrightarrow>
            walk_names (walkFn lib ph) (Leaf zipPath name k # ts) w =
            walk_names (walkFn lib ph) ts (job lib zipPath ph w)"
    by (auto simp: IsDir_def) (case_tac k; simp)+
  from 1 j 2 3 4 5 6 7 8 show ?thesis by blast
qed

text \<open>
  The file \<open>maps/broken.zip\<close> of the small run is not an archive; here its removal
  succeeds.
\<close>

theorem failed_job_witness:
  "processZipFile demo_lib ''maps/broken.zip'' placeholderPNGPath demo_world =
     (Inl (Errorf ''could not read zip file'' (Errno ''zip: not a valid zip file'')),
      demo_world\<lparr>trace := [EvOpen ''maps/broken.zip'']\<rparr>) \<and>
   trace (job demo_lib ''maps/broken.zip'' placeholderPNGPath demo_world) =
     [EvOpen ''maps/broken.zip'',
      EvPrint (''Error processing zip file maps/broken.zip: could not read zip file: zip: not a valid zip file'' @ newline),
      EvRemove ''maps/broken.zip''] \<and>
   files (job demo_lib ''maps/broken.zip'' placeholderPNGPath demo_world) ''maps/broken.zip'' = None \<and>
   files (job demo_lib ''maps/broken.zip'' placeholderPNGPath demo_world) ''maps/a.zip'' =
     Some [0x50, 0x4B, 0x01]"
proof -
  let ?e = "Errorf ''could not read zip file'' (Errno ''zip: not a valid zip file'')"
  let ?w1 = "demo_world\<lparr>trace := [EvOpen ''maps/broken.zip'']\<rparr>"
  let ?w2 = "demo_world\<lparr>inode := (inode demo_world)(''maps/broken.zip'' := None),
     trace := [EvOpen ''maps/broken.zip'',
      EvPrint (''Error processing zip file maps/broken.zip: could not read zip file: zip: not a valid zip file'' @ newline),
      EvRemove ''maps/broken.zip'']\<rparr>"
  have run: "processZipFile demo_lib ''maps/broken.zip'' placeholderPNGPath demo_world =
     (Inl ?e, ?w1)"
    by (simp add: run_defs demo_defs)
  have rm: "os_Remove ''maps/broken.zip''
      (Printf (''Error processing zip file '' @ ''maps/broken.zip'' @ '': '' @ Error ?e @ newline)
         ?w1) = (None, ?w2)"
    by (simp add: os_Remove_def next_fault_def Printf_def emit_def demo_world_def)
  note th = failed_job [OF run rm]
  from th have j: "job demo_lib ''maps/broken.zip'' placeholderPNGPath demo_world = ?w2"
    by blast
  from th have g: "files ?w2 ''maps/broken.zip'' = None" by blast
  from th have
    "\<forall>p. p \<noteq> ''maps/broken.zip'' \<and> inode demo_world p \<noteq> inode demo_world ''maps/broken.zip''
       \<longrightarrow> files ?w2 p = files demo_world p"
    by blast
  then have "files ?w2 ''maps/a.zip'' = files demo_world ''maps/a.zip''"
    by (simp add: demo_world_def)
  with run j g show ?thesis by (simp add: demo_world_simps)
qed

text \<open>
  Two jobs that fail and leave their archive on the disk, because the removal fails as
  well: \<open>maps/broken.zip\<close> stays as it was, and \<open>maps/b.zip\<close>, whose overwrite failed
  after the file had been emptied, stays empty.
\<close>

theorem failed_job_leaves_the_archive:
  "fst (processZipFile demo_lib ''maps/broken.zip'' placeholderPNGPath stuck_world) =
     Inl (Errorf ''could not read zip file'' (Errno ''zip: not a valid zip file'')) \<and>
   files (job demo_lib ''maps/broken.zip'' placeholderPNGPath stuck_world) ''maps/broken.zip'' =
     Some [0x00] \<and>
   fst (processZipFile demo_lib ''maps/b.zip'' placeholderPNGPath failing_world) =
     Inl (Errorf ''could not overwrite zip file'' (Errno ''write maps/b.zip: input/output error'')) \<and>
   files failing_world ''maps/b.zip'' = Some [0x50, 0x4B, 0x02] \<and>
   files (job demo_lib ''maps/b.zip'' placeholderPNGPath failing_world) ''maps/b.zip'' = Some []"
  by (simp add: run_defs demo_defs stuck_world_def failing_world_def Ext_demo
      shouldSkipFile_demo)

section \<open>The walk as a sequence of jobs\<close>

lemma run_visits_jobs:
  "run_visits (walkFn lib ph) vs w =
     (first_error vs,
      foldl (\<lambda>w p. job lib p ph w) w (map fst (filter zip_object (before_error vs))))"
proof (induction vs arbitrary: w)
  case Nil
  show ?case by (simp add: first_error_def before_error_def)
next
  case (Cons v vs)
  obtain path a where v: "v = (path, a)" by (cases v)
  show ?case
  proof (cases a)
    case (Inl err)
    with v show ?thesis by (simp add: first_error_def before_error_def)
  next
    case (Inr info)
    with v Cons.IH show ?thesis
      by (simp add: first_error_def before_error_def)
  qed
qed

lemma Walk_jobs:
  "Walk root (walkFn lib ph) w =
     (first_error (preorder root),
      foldl (\<lambda>w p. job lib p ph w) w (map fst (filter zip_object (before_error (preorder root)))))"
  by (simp add: Walk_def walk_run_visits run_visits_jobs)

text \<open>
  What a sequence of jobs can do to the disk: the only paths it can take away are those
  of the jobs, and the only files whose bytes it can change are those that these paths
  lead to.
\<close>

lemma jobs_effect:
  "(\<forall>p. p \<notin> set ps \<longrightarrow> inode (foldl (\<lambda>w p. job lib p ph w) w ps) p = inode w p) \<and>
   (\<forall>p. inode (foldl (\<lambda>w p. job lib p ph w) w ps) p = None \<or>
        inode (foldl (\<lambda>w p. job lib p ph w) w ps) p = inode w p) \<and>
   (\<forall>j. (\<forall>q \<in> set ps. inode w q \<noteq> Some j) \<longrightarrow>
        disk (foldl (\<lambda>w p. job lib p ph w) w ps) j = disk w j)"
proof (induction ps arbitrary: w)
  case Nil
  show ?case by simp
next
  case (Cons q ps)
  define w1 where "w1 = job lib q ph w"
  define w2 where "w2 = foldl (\<lambda>w p. job lib p ph w) w1 ps"
  have f: "foldl (\<lambda>w p. job lib p ph w) w (q # ps) = w2"
    by (simp add: w1_def w2_def)
  from job_effect [of q lib ph w] have
    a: "\<forall>p. p \<noteq> q \<longrightarrow> inode w1 p = inode w p" and
    b: "\<forall>p. inode w1 p = None \<or> inode w1 p = inode w p" and
    c: "\<forall>j. inode w q \<noteq> Some j \<longrightarrow> disk w1 j = disk w j"
    unfolding w1_def by metis+
  from Cons.IH [of w1] have
    a2: "\<forall>p. p \<notin> set ps \<longrightarrow> inode w2 p = inode w1 p" and
    b2: "\<forall>p. inode w2 p = None \<or> inode w2 p = inode w1 p" and
    c2: "\<forall>j. (\<forall>q \<in> set ps. inode w1 q \<noteq> Some j) \<longrightarrow> disk w2 j = disk w1 j"
    unfolding w2_def by blast+
  have 1: "\<forall>p. p \<notin> set (q # ps) \<longrightarrow> inode w2 p = inode w p"
    using a a2 by simp
  have 2: "\<forall>p. inode w2 p = None \<or> inode w2 p = inode w p"
    using b b2 by metis
  have 3: "\<forall>j. (\<forall>q' \<in> set (q # ps). inode w q' \<noteq> Some j) \<longrightarrow> disk w2 j = disk w j"
  proof (intro allI impI)
    fix j assume h: "\<forall>q' \<in> set (q # ps). inode w q' \<noteq> Some j"
    then have "inode w q \<noteq> Some j" by simp
    with c have d1: "disk w1 j = disk w j" by blast
    have "\<forall>q' \<in> set ps. inode w1 q' \<noteq> Some j"
    proof
      fix q' assume "q' \<in> set ps"
      with h have "inode w q' \<noteq> Some j" by simp
      with b show "inode w1 q' \<noteq> Some j" by (metis option.distinct(1))
    qed
    with c2 have "disk w2 j = disk w1 j" by blast
    with d1 show "disk w2 j = disk w j" by simp
  qed
  from 1 2 3 show ?case unfolding f by blast
qed

lemma jobs_opened:
  "opened (trace (foldl (\<lambda>w p. job lib p ph w) w ps)) = opened (trace w) @ ps"
  by (induction ps arbitrary: w) (auto simp: job_opened)

lemma count_prints: "prints_only evs \<Longrightarrow> count_list evs (EvReadFile p) = 0"
  by (induction evs) (auto simp: prints_only_def)

lemma processZipFile_reads:
  assumes "processZipFile lib zp ph w = (r, w')"
  shows "count_list (trace w') (EvReadFile ph) =
         count_list (trace w) (EvReadFile ph) + (if early_failure r then 0 else 1)"
  using assms
proof (cases rule: processZipFile_cases)
  case early
  then show ?thesis by simp
next
  case (blob e)
  then show ?thesis by (simp add: early_failure_def)
next
  case (entries e prints)
  then have "\<not> early_failure r" by (auto simp: early_failure_def)
  with entries show ?thesis by (simp add: count_prints)
next
  case (overwrite prints)
  then have "\<not> early_failure r" by (auto simp: early_failure_def overwrite_failure_def)
  with overwrite show ?thesis by (simp add: count_prints)
qed

lemma job_reads:
  "count_list (trace (job lib zp ph w)) (EvReadFile ph) \<le> count_list (trace w) (EvReadFile ph) + 1"
proof (cases "processZipFile lib zp ph w")
  case (Pair r w1)
  from processZipFile_reads [OF Pair] Pair show ?thesis
    by (cases r) (simp_all add: job_def os_Remove_trace Printf_def emit_def)
qed

lemma jobs_reads:
  "count_list (trace (foldl (\<lambda>w p. job lib p ph w) w ps)) (EvReadFile ph)
     \<le> count_list (trace w) (EvReadFile ph) + length ps"
proof (induction ps arbitrary: w)
  case Nil
  show ?case by simp
next
  case (Cons p ps)
  from Cons.IH [of "job lib p ph w"] job_reads [of lib p ph w] show ?case by simp
qed

lemma os_Stat_run:
  "os_Stat name w = (r, w') \<Longrightarrow> store w' = store w \<and> trace w' = trace w @ [EvStat name]"
  by (auto simp: os_Stat_def Let_def emit_def store_def split: option.splits
      dest!: next_fault_same)

lemma main_reads:
  "count_list (trace (snd (main lib root w))) (EvReadFile placeholderPNGPath)
     \<le> count_list (trace w) (EvReadFile placeholderPNGPath)
        + length (filter zip_object (before_error (preorder root)))"
proof (cases "os_Stat placeholderPNGPath w")
  case (Pair err0 w1)
  note st = os_Stat_run [OF Pair]
  show ?thesis
  proof (cases "IsNotExist err0")
    case True
    with Pair st show ?thesis by (simp add: main_def Printf_def emit_def)
  next
    case False
    let ?ps = "map fst (filter zip_object (before_error (preorder root)))"
    from jobs_reads [of lib placeholderPNGPath w1 ?ps] st
    have "count_list (trace (foldl (\<lambda>w p. job lib p placeholderPNGPath w) w1 ?ps))
            (EvReadFile placeholderPNGPath)
          \<le> count_list (trace w) (EvReadFile placeholderPNGPath)
             + length (filter zip_object (before_error (preorder root)))"
      by simp
    with Pair False show ?thesis
      by (cases "first_error (preorder root)")
         (simp_all add: main_def Walk_jobs Printf_def emit_def)
  qed
qed

section \<open>Reading the placeholder\<close>

text \<open>
  Claim C6, as the program has it. The placeholder is not read when the process starts:
  \<open>main\<close> only asks whether the file exists. It is read by the jobs, once by each job
  that gets as far as having opened and parsed its archive, and not at all by a job that
  fails before; so a run reads it at most as many times as it starts jobs.
\<close>

theorem placeholder_read_by_each_job:
  "(processZipFile lib zipPath ph w = (r, w') \<longrightarrow>
      count_list (trace w') (EvReadFile ph) =
      count_list (trace w) (EvReadFile ph) + (if early_failure r then 0 else 1)) \<and>
   count_list (trace (snd (main lib root w0))) (EvReadFile placeholderPNGPath)
     \<le> count_list (trace w0) (EvReadFile placeholderPNGPath)
        + length (filter zip_object (before_error (preorder root)))"
  using processZipFile_reads main_reads by blast

text \<open>The job for \<open>maps/a.zip\<close> of the small run reads the placeholder once.\<close>

theorem placeholder_read_by_each_job_witness:
  "\<exists>w'. processZipFile demo_lib ''maps/a.zip'' placeholderPNGPath demo_world = (Inr (), w') \<and>
     count_list (trace w') (EvReadFile placeholderPNGPath) = 1 \<and>
     count_list (trace (snd (main demo_lib demo_tree demo_world))) (EvReadFile placeholderPNGPath)
       \<le> 2"
proof -
  have a: "files demo_world ''maps/a.zip'' = Some [0x50, 0x4B, 0x01]"
    and b: "lib_NewReader demo_lib [0x50, 0x4B, 0x01] (length [0x50, 0x4B, 0x01 :: 8 word])
              = Inr demo_mod"
    and c: "files demo_world placeholderPNGPath = Some demo_blob"
    and d: "faults demo_world = []"
    by (simp_all add: demo_world_def files_def demo_lib_def placeholderPNGPath_def)
  from processZipFile_succeeds [OF d a b c no_directories_demo(1)] obtain w' where
    run: "processZipFile demo_lib ''maps/a.zip'' placeholderPNGPath demo_world = (Inr (), w')"
    by blast
  have n: "length (filter zip_object (before_error (preorder demo_tree))) = 2"
    by (simp add: demo_tree_def before_error_def IsDir_def Ext_demo)
  from placeholder_read_by_each_job
    [of demo_lib "''maps/a.zip''" placeholderPNGPath demo_world "Inr ()" w' demo_tree demo_world]
    run n
  show ?thesis by (simp add: early_failure_def demo_world_def)
qed

text \<open>
  In the small run, with two archives, the placeholder is read twice, each time after an
  archive has been opened.
\<close>

theorem placeholder_read_twice:
  "count_list (trace (snd (main demo_lib demo_tree demo_world))) (EvReadFile ''./placeholder.png'') = 2"
  by (simp add: run_defs demo_defs Ext_demo shouldSkipFile_demo)

section \<open>The start of the program\<close>

text \<open>
  Claim C7. When there is no file at \<open>./placeholder.png\<close>, \<open>main\<close> asks for it, prints
  that it was not found and returns, with status 0: nothing is walked, no archive is
  opened, read, written or removed, and the disk is as it was.
\<close>

theorem main_without_placeholder:
  assumes "files w ''./placeholder.png'' = None"
  shows "main lib rootDir w =
           (0, w\<lparr>trace := trace w @
                  [EvStat ''./placeholder.png'',
                   EvPrint (''Placeholder PNG file not found at ./placeholder.png'' @ newline)]\<rparr>)"
  using assms
  by (simp add: main_def os_Stat_def Let_def files_emit IsNotExist_def placeholderPNGPath_def)
     (simp add: Printf_def emit_def)

text \<open>The small run on a disk without the placeholder.\<close>

theorem main_without_placeholder_witness:
  "main demo_lib demo_tree bare_world =
     (0, bare_world\<lparr>trace :=
           [EvStat ''./placeholder.png'',
            EvPrint (''Placeholder PNG file not found at ./placeholder.png'' @ newline)]\<rparr>) \<and>
   files (snd (main demo_lib demo_tree bare_world)) ''maps/a.zip'' = Some [0x50, 0x4B, 0x01]"
proof -
  have "files bare_world ''./placeholder.png'' = None"
    by (simp add: bare_world_def files_def)
  from main_without_placeholder [OF this, of demo_lib demo_tree]
  show ?thesis by (simp add: bare_world_def demo_world_def files_def)
qed

section \<open>Which objects get a job\<close>

text \<open>
  Claim C8, as the program has it. The walk starts a job for exactly the objects it comes
  to that are not directories and whose name has the extension \<open>.zip\<close> (a symbolic link,
  a pipe or a device with such a name as well as a regular file), in the order of the
  walk and up to the first error of the walk: what the walk does to the world is what
  these jobs do, one after the other, and no other object gets a job. No path but those
  of the jobs is taken away, and a file keeps its bytes unless the path of a job leads to
  it: the file behind a symbolic link that has a job, or one that shares its inode with
  an archive that has a job, is rewritten though its own path has no job.
\<close>

theorem Walk_starts_jobs_for_zip_objects:
  "Walk root (walkFn lib ph) w =
     (first_error (preorder root),
      foldl (\<lambda>w p. job lib p ph w) w
        (map fst (filter zip_object (before_error (preorder root))))) \<and>
   opened (trace (snd (Walk root (walkFn lib ph) w))) =
     opened (trace w) @ map fst (filter zip_object (before_error (preorder root))) \<and>
   (\<forall>p. p \<notin> set (map fst (filter zip_object (before_error (preorder root)))) \<longrightarrow>
        inode (snd (Walk root (walkFn lib ph) w)) p = inode w p) \<and>
   (\<forall>j. (\<forall>q \<in> set (map fst (filter zip_object (before_error (preorder root)))).
            inode w q \<noteq> Some j) \<longrightarrow>
        disk (snd (Walk root (walkFn lib ph) w)) j = disk w j) \<and>
   (\<forall>p. p \<notin> set (map fst (filter zip_object (before_error (preorder root)))) \<and>
        (\<forall>q \<in> set (map fst (filter zip_object (before_error (preorder root)))).
            inode w q \<noteq> inode w p) \<longrightarrow>
        files (snd (Walk root (walkFn lib ph) w)) p = files w p)"
proof -
  define ps where "ps = map fst (filter zip_object (before_error (preorder root)))"
  define w' where "w' = foldl (\<lambda>w p. job lib p ph w) w ps"
  have W: "Walk root (walkFn lib ph) w = (first_error (preorder root), w')"
    by (simp add: Walk_jobs ps_def w'_def)
  have o: "opened (trace w') = opened (trace w) @ ps"
    by (simp add: w'_def jobs_opened)
  from jobs_effect [of ps lib ph w] have
    a: "\<forall>p. p \<notin> set ps \<longrightarrow> inode w' p = inode w p" and
    c: "\<forall>j. (\<forall>q \<in> set ps. inode w q \<noteq> Some j) \<longrightarrow> disk w' j = disk w j"
    unfolding w'_def by blast+
  have f: "\<forall>p. p \<notin> set ps \<and> (\<forall>q \<in> set ps. inode w q \<noteq> inode w p) \<longrightarrow> files w' p = files w p"
  proof (intro allI impI)
    fix p assume h: "p \<notin> set ps \<and> (\<forall>q \<in> set ps. inode w q \<noteq> inode w p)"
    with a have i: "inode w' p = inode w p" by blast
    show "files w' p = files w p"
    proof (cases "inode w p")
      case None
      with i show ?thesis by (simp add: files_def)
    next
      case (Some n)
      with h have "\<forall>q \<in> set ps. inode w q \<noteq> Some n" by auto
      with c have "disk w' n = disk w n" by blast
      with i Some show ?thesis by (simp add: files_def)
    qed
  qed
  have s: "snd (Walk root (walkFn lib ph) w) = w'" using W by simp
  have W': "Walk root (walkFn lib ph) w =
      (first_error (preorder root), foldl (\<lambda>w p. job lib p ph w) w ps)"
    using W by (simp add: w'_def)
  from W' o a c f show ?thesis unfolding ps_def [symmetric] s by (intro conjI)
qed

text \<open>The small run: the two archives get a job, the notes and the broken file do not.\<close>

theorem Walk_starts_jobs_for_zip_objects_witness:
  "opened (trace (snd (Walk demo_tree (walkFn demo_lib placeholderPNGPath) demo_world))) =
     [''maps/a.zip'', ''maps/b.zip''] \<and>
   files (snd (Walk demo_tree (walkFn demo_lib placeholderPNGPath) demo_world)) ''maps/notes.txt''
     = None \<and>
   files (snd (Walk demo_tree (walkFn demo_lib placeholderPNGPath) demo_world)) ''maps/broken.zip''
     = Some [0x00]"
proof -
  let ?w = "snd (Walk demo_tree (walkFn demo_lib placeholderPNGPath) demo_world)"
  have t: "map fst (filter zip_object (before_error (preorder demo_tree))) =
      [''maps/a.zip'', ''maps/b.zip'']"
    by (simp add: demo_tree_def before_error_def IsDir_def Ext_demo)
  note th = Walk_starts_jobs_for_zip_objects
    [of demo_tree demo_lib placeholderPNGPath demo_world, unfolded t]
  from th have o: "opened (trace ?w) = opened (trace demo_world) @ [''maps/a.zip'', ''maps/b.zip'']"
    by blast
  from th have f: "\<forall>p. p \<notin> set [''maps/a.zip'', ''maps/b.zip''] \<and>
        (\<forall>q \<in> set [''maps/a.zip'', ''maps/b.zip'']. inode demo_world q \<noteq> inode demo_world p) \<longrightarrow>
        files ?w p = files demo_world p"
    by blast
  have 1: "opened (trace ?w) = [''maps/a.zip'', ''maps/b.zip'']"
    using o by (simp add: demo_world_def)
  have 2: "files ?w ''maps/notes.txt'' = files demo_world ''maps/notes.txt''"
    by (rule f [rule_format]) (simp add: demo_world_def)
  have 3: "files ?w ''maps/broken.zip'' = files demo_world ''maps/broken.zip''"
    by (rule f [rule_format]) (simp add: demo_world_def)
  from 1 2 3 show ?thesis by (simp add: demo_world_def files_def)
qed

text \<open>
  A symbolic link named \<open>link.zip\<close> is not a regular file, and it gets a job: the archive
  it leads to is opened and written, so that the regular file \<open>target.dat\<close>, which is
  that archive and has no job, holds other bytes after the walk.
\<close>

theorem symlink_gets_a_job:
  "filter regular_zip_object (preorder link_tree) = [] \<and>
   trace (snd (Walk link_tree (walkFn demo_lib placeholderPNGPath) link_world)) =
     [EvOpen ''maps/link.zip'', EvReadFile ''./placeholder.png'', EvWriteFile ''maps/link.zip''] \<and>
   files link_world ''maps/target.dat'' = Some [0x50, 0x4B, 0x02] \<and>
   files (snd (Walk link_tree (walkFn demo_lib placeholderPNGPath) link_world)) ''maps/target.dat''
     = Some [0x50, 0x4B, 0x03]"
  by (simp add: run_defs demo_defs link_tree_def link_world_def IsRegular_def Ext_def
      IsPathSeparator_def shouldSkipFile_demo)

section \<open>An error of the walk\<close>

text \<open>
  Claim C9, as the program has it. When the walk meets an error (an object that cannot
  be examined, a directory that cannot be read), the callback returns it and \<open>Walk\<close> stops
  there, for the whole tree and not only for the branch: jobs have been started for the
  archives that come before the error in the order of the walk, none is started for what
  comes after it. \<open>main\<close> then prints the error, once, and \<open>Processing complete.\<close>
\<close>

theorem walk_error_stops_the_walk:
  "(first_error (preorder t) = Some err \<longrightarrow>
      fst (walk (walkFn lib ph) t w) = Some err \<and>
      walk_names (walkFn lib ph) (t # ts) w = walk (walkFn lib ph) t w) \<and>
   (\<not> IsNotExist (fst (os_Stat placeholderPNGPath w0)) \<and>
    first_error (preorder root) = Some err0 \<longrightarrow>
      main lib root w0 =
        (0, Printf (''Processing complete.'' @ newline)
              (Printf (''Error walking the directory: '' @ Error err0 @ newline)
                 (foldl (\<lambda>w p. job lib p placeholderPNGPath w)
                    (snd (os_Stat placeholderPNGPath w0))
                    (map fst (filter zip_object (before_error (preorder root))))))))"
proof -
  have 1: "fst (walk (walkFn lib ph) t w) = Some err \<and>
      walk_names (walkFn lib ph) (t # ts) w = walk (walkFn lib ph) t w"
    if "first_error (preorder t) = Some err"
    using that by (simp add: walk_run_visits(1) run_visits_jobs)
  have 2: "main lib root w0 =
        (0, Printf (''Processing complete.'' @ newline)
              (Printf (''Error walking the directory: '' @ Error err0 @ newline)
                 (foldl (\<lambda>w p. job lib p placeholderPNGPath w)
                    (snd (os_Stat placeholderPNGPath w0))
                    (map fst (filter zip_object (before_error (preorder root)))))))"
    if "\<not> IsNotExist (fst (os_Stat placeholderPNGPath w0))"
      and "first_error (preorder root) = Some err0"
    using that by (cases "os_Stat placeholderPNGPath w0") (simp add: main_def Walk_jobs)
  from 1 2 show ?thesis by blast
qed

text \<open>
  A directory \<open>maps\<close> with a directory \<open>a\<close> that cannot be read and, beside it, an
  archive \<open>b.zip\<close>.
\<close>

theorem walk_error_stops_the_walk_witness:
  "fst (walk (walkFn demo_lib placeholderPNGPath)
          (DirUnreadable ''maps/a'' ''a'' (Errno ''open maps/a: permission denied'')) demo_world)
     = Some (Errno ''open maps/a: permission denied'') \<and>
   walk_names (walkFn demo_lib placeholderPNGPath)
      [DirUnreadable ''maps/a'' ''a'' (Errno ''open maps/a: permission denied''),
       Leaf ''maps/b.zip'' ''b.zip'' Regular] demo_world =
     walk (walkFn demo_lib placeholderPNGPath)
       (DirUnreadable ''maps/a'' ''a'' (Errno ''open maps/a: permission denied'')) demo_world \<and>
   main demo_lib locked_tree demo_world =
     (0, demo_world\<lparr>trace :=
           [EvStat ''./placeholder.png'',
            EvPrint (''Error walking the directory: open maps/a: permission denied'' @ newline),
            EvPrint (''Processing complete.'' @ newline)]\<rparr>)"
proof -
  let ?e = "Errno ''open maps/a: permission denied''"
  have a: "first_error (preorder (DirUnreadable ''maps/a'' ''a'' ?e)) = Some ?e"
    by (simp add: first_error_def)
  have b: "\<not> IsNotExist (fst (os_Stat placeholderPNGPath demo_world))"
    by (simp add: os_Stat_def Let_def emit_def next_fault_def IsNotExist_def demo_world_def
        files_def placeholderPNGPath_def)
  have c: "first_error (preorder locked_tree) = Some ?e"
    by (simp add: first_error_def locked_tree_def)
  have d: "map fst (filter zip_object (before_error (preorder locked_tree))) = []"
    by (simp add: before_error_def locked_tree_def IsDir_def)
  have e: "snd (os_Stat placeholderPNGPath demo_world) =
      demo_world\<lparr>trace := [EvStat ''./placeholder.png'']\<rparr>"
    by (simp add: os_Stat_def Let_def emit_def next_fault_def demo_world_def files_def
        placeholderPNGPath_def)
  note th = walk_error_stops_the_walk
    [of "DirUnreadable ''maps/a'' ''a'' ?e" ?e demo_lib placeholderPNGPath demo_world
        "[Leaf ''maps/b.zip'' ''b.zip'' Regular]" demo_world locked_tree ?e]
  from th a have 1: "fst (walk (walkFn demo_lib placeholderPNGPath)
          (DirUnreadable ''maps/a'' ''a'' ?e) demo_world) = Some ?e"
    and 2: "walk_names (walkFn demo_lib placeholderPNGPath)
      [DirUnreadable ''maps/a'' ''a'' ?e, Leaf ''maps/b.zip'' ''b.zip'' Regular] demo_world =
     walk (walkFn demo_lib placeholderPNGPath) (DirUnreadable ''maps/a'' ''a'' ?e) demo_world"
    by blast+
  from th b c have "main demo_lib locked_tree demo_world =
        (0, Printf (''Processing complete.'' @ newline)
              (Printf (''Error walking the directory: '' @ Error ?e @ newline)
                 (foldl (\<lambda>w p. job demo_lib p placeholderPNGPath w)
                    (snd (os_Stat placeholderPNGPath demo_world))
                    (map fst (filter zip_object (before_error (preorder locked_tree)))))))"
    by blast
  then have 3: "main demo_lib locked_tree demo_world =
     (0, demo_world\<lparr>trace :=
           [EvStat ''./placeholder.png'',
            EvPrint (''Error walking the directory: open maps/a: permission denied'' @ newline),
            EvPrint (''Processing complete.'' @ newline)]\<rparr>)"
    unfolding d e by (simp add: Printf_def emit_def)
  from 1 2 3 show ?thesis by blast
qed

text \<open>
  The archive \<open>maps/b.zip\<close> is not in the directory that cannot be read, and yet the run
  never comes to it: it is not opened, and it is on the disk as it was.
\<close>

theorem sibling_of_unreadable_directory_is_skipped:
  "trace (snd (main demo_lib locked_tree demo_world)) =
     [EvStat ''./placeholder.png'',
      EvPrint (''Error walking the directory: open maps/a: permission denied'' @ newline),
      EvPrint (''Processing complete.'' @ newline)] \<and>
   files (snd (main demo_lib locked_tree demo_world)) ''maps/b.zip'' = Some [0x50, 0x4B, 0x02]"
  by (simp add: run_defs demo_defs locked_tree_def)

end
